theory Spec2Isabelle
  imports Complex_Main
begin

section \<open>Weather-Tracker: a shallow embedding of main.go\<close>

text \<open>
  The program is one Go file. It reads an API key from a JSON file (\<open>loadApiConfig\<close>),
  asks a weather service for a city (\<open>query\<close>) and serves the answer over HTTP (the
  handler registered for \<open>/weather/\<close> in \<open>main\<close>).

  Go strings are byte sequences; they are modelled as \<^typ>\<open>string\<close>, whose characters are
  8-bit. The file system and the network are a record of functions (\<open>world\<close>), and every
  call that leaves the process is recorded in a trace of events. The functions of Go's
  standard library that the program calls (\<open>strings.SplitN\<close>, \<open>json.Unmarshal\<close>,
  \<open>strconv.ParseFloat\<close>, \<open>http.Error\<close>) are modelled after their documented behaviour.
  The routing of \<open>http.ServeMux\<close> and the listener are not modelled: a handler is given the
  path of the request it serves.
\<close>

subsection \<open>Bytes and UTF-8\<close>

definition byte :: "char \<Rightarrow> nat" where
  "byte c = of_char c"

text \<open>\<open>strings.HasPrefix\<close> and \<open>strings.Index\<close> (the index of the first instance of
  \<open>sep\<close>, \<open>None\<close> for Go's \<open>-1\<close>).\<close>

definition HasPrefix :: "string \<Rightarrow> string \<Rightarrow> bool" where
  "HasPrefix s p = (take (length p) s = p)"

fun Index :: "string \<Rightarrow> string \<Rightarrow> nat option" where
  "Index [] sep = (if sep = [] then Some 0 else None)"
| "Index (c # s) sep =
     (if HasPrefix (c # s) sep then Some 0 else map_option Suc (Index s sep))"

definition isCont :: "char \<Rightarrow> bool" where
  "isCont c = (0x80 \<le> byte c \<and> byte c \<le> 0xBF)"

definition RuneError :: nat where
  "RuneError = 0xFFFD"

text \<open>\<open>utf8.DecodeRune\<close>: the code point at the head of the bytes and its width; an
  invalid or truncated encoding is \<open>(RuneError, 1)\<close>. \<open>DecodeRune1\<close> is the case of a
  non-empty input, with its first byte apart.\<close>

definition DecodeRune1 :: "char \<Rightarrow> string \<Rightarrow> nat \<times> nat" where
  "DecodeRune1 c0 s =
     (let b0 = byte c0 in
      if b0 < 0x80 then (b0, 1)
      else if 0xC2 \<le> b0 \<and> b0 \<le> 0xDF then
        (case s of
           c1 # _ \<Rightarrow>
             if isCont c1 then ((b0 - 0xC0) * 64 + (byte c1 - 0x80), 2)
             else (RuneError, 1)
         | _ \<Rightarrow> (RuneError, 1))
      else if 0xE0 \<le> b0 \<and> b0 \<le> 0xEF then
        (case s of
           c1 # c2 # _ \<Rightarrow>
             if (if b0 = 0xE0 then 0xA0 else 0x80) \<le> byte c1
                \<and> byte c1 \<le> (if b0 = 0xED then 0x9F else 0xBF) \<and> isCont c2
             then ((b0 - 0xE0) * 4096 + (byte c1 - 0x80) * 64 + (byte c2 - 0x80), 3)
             else (RuneError, 1)
         | _ \<Rightarrow> (RuneError, 1))
      else if 0xF0 \<le> b0 \<and> b0 \<le> 0xF4 then
        (case s of
           c1 # c2 # c3 # _ \<Rightarrow>
             if (if b0 = 0xF0 then 0x90 else 0x80) \<le> byte c1
                \<and> byte c1 \<le> (if b0 = 0xF4 then 0x8F else 0xBF) \<and> isCont c2 \<and> isCont c3
             then ((b0 - 0xF0) * 262144 + (byte c1 - 0x80) * 4096
                   + (byte c2 - 0x80) * 64 + (byte c3 - 0x80), 4)
             else (RuneError, 1)
         | _ \<Rightarrow> (RuneError, 1))
      else (RuneError, 1))"

definition DecodeRune :: "string \<Rightarrow> nat \<times> nat" where
  "DecodeRune s = (case s of [] \<Rightarrow> (RuneError, 0) | c0 # t \<Rightarrow> DecodeRune1 c0 t)"

text \<open>\<open>utf8.EncodeRune\<close>: surrogates and values beyond U+10FFFF are written as U+FFFD.\<close>

definition EncodeRune :: "nat \<Rightarrow> string" where
  "EncodeRune r =
     (if r < 0x80 then [char_of r]
      else if r < 0x800 then [char_of (0xC0 + r div 64), char_of (0x80 + r mod 64)]
      else if 0x10FFFF < r \<or> (0xD800 \<le> r \<and> r \<le> 0xDFFF) then
        [CHR 0xEF, CHR 0xBF, CHR 0xBD]
      else if r < 0x10000 then
        [char_of (0xE0 + r div 4096), char_of (0x80 + r div 64 mod 64),
         char_of (0x80 + r mod 64)]
      else
        [char_of (0xF0 + r div 262144), char_of (0x80 + r div 4096 mod 64),
         char_of (0x80 + r div 64 mod 64), char_of (0x80 + r mod 64)])"

subsection \<open>strings.SplitN\<close>

text \<open>
  \<open>strings.SplitN(s, sep, n)\<close> is \<open>genSplit(s, sep, 0, n)\<close>: for \<open>n = 0\<close> the result is
  empty; for an empty separator the string is cut after each UTF-8 sequence
  (\<open>explode\<close>); otherwise \<open>n\<close> is lowered to \<open>len(s) + 1\<close>, the string is cut at the first
  \<open>n - 1\<close> instances of the separator and the last element is the unsplit rest. The
  count is a \<^typ>\<open>nat\<close>: the program passes the constant 3, and Go's negative count
  ("all substrings") is not part of the model.
\<close>

fun explodeLoop :: "string \<Rightarrow> nat \<Rightarrow> string list" where
  "explodeLoop s 0 = [s]"
| "explodeLoop s (Suc k) =
     take (snd (DecodeRune s)) s # explodeLoop (drop (snd (DecodeRune s)) s) k"

fun RuneCountInString :: "string \<Rightarrow> nat" where
  "RuneCountInString [] = 0"
| "RuneCountInString (c # s) =
     Suc (RuneCountInString (drop (snd (DecodeRune (c # s)) - 1) s))"

definition explode :: "string \<Rightarrow> nat \<Rightarrow> string list" where
  "explode s n =
     (let l = RuneCountInString s; n' = (if n > l then l else n)
      in if n' = 0 then [] else explodeLoop s (n' - 1))"

fun splitLoop :: "string \<Rightarrow> string \<Rightarrow> nat \<Rightarrow> string list" where
  "splitLoop s sep 0 = [s]"
| "splitLoop s sep (Suc k) =
     (case Index s sep of
        None \<Rightarrow> [s]
      | Some m \<Rightarrow> take m s # splitLoop (drop (m + length sep) s) sep k)"

definition SplitN :: "string \<Rightarrow> string \<Rightarrow> nat \<Rightarrow> string list" where
  "SplitN s sep n =
     (if n = 0 then []
      else if sep = [] then explode s n
      else splitLoop s sep ((if n > length s + 1 then length s + 1 else n) - 1))"

subsection \<open>JSON texts\<close>

text \<open>
  \<open>json.Unmarshal\<close> first checks the whole input for well-formedness (\<open>checkValid\<close>) and
  only then decodes it. The model does the same in two passes: \<open>lex\<close> cuts the bytes into
  tokens and \<open>run\<close> drives the scanner's pushdown automaton over them, building the value.
  A text is well-formed exactly when \<open>parseJSON\<close> returns a value.
\<close>

datatype token = TLBrace | TRBrace | TLBracket | TRBracket | TColon | TComma
  | TString string | TNumber string | TTrue | TFalse | TNull

definition isSpace :: "char \<Rightarrow> bool" where
  "isSpace c = (c = CHR '' '' \<or> c = CHR 0x09 \<or> c = CHR 0x0D \<or> c = CHR 0x0A)"

definition isDigit :: "char \<Rightarrow> bool" where
  "isDigit c = (0x30 \<le> byte c \<and> byte c \<le> 0x39)"

definition hexVal :: "char \<Rightarrow> nat option" where
  "hexVal c =
     (let b = byte c in
      if 0x30 \<le> b \<and> b \<le> 0x39 then Some (b - 0x30)
      else if 0x61 \<le> b \<and> b \<le> 0x66 then Some (b - 0x61 + 10)
      else if 0x41 \<le> b \<and> b \<le> 0x46 then Some (b - 0x41 + 10)
      else None)"

text \<open>\<open>getu4\<close> reads the escape \<open>\uXXXX\<close> at the head of the bytes.\<close>

definition getu4 :: "string \<Rightarrow> nat option" where
  "getu4 s =
     (case s of
        bs # u # h1 # h2 # h3 # h4 # _ \<Rightarrow>
          if bs = CHR 0x5C \<and> u = CHR ''u'' then
            (case (hexVal h1, hexVal h2, hexVal h3, hexVal h4) of
               (Some a, Some b, Some c, Some d) \<Rightarrow> Some (((a * 16 + b) * 16 + c) * 16 + d)
             | _ \<Rightarrow> None)
          else None
      | _ \<Rightarrow> None)"

definition IsSurrogate :: "nat \<Rightarrow> bool" where
  "IsSurrogate r = (0xD800 \<le> r \<and> r < 0xE000)"

text \<open>\<open>utf16.DecodeRune\<close>; the second argument is \<open>None\<close> when no escape follows.\<close>

definition utf16_DecodeRune :: "nat \<Rightarrow> nat option \<Rightarrow> nat" where
  "utf16_DecodeRune r1 r2 =
     (case r2 of
        Some r2' \<Rightarrow>
          if 0xD800 \<le> r1 \<and> r1 < 0xDC00 \<and> 0xDC00 \<le> r2' \<and> r2' < 0xE000
          then (r1 - 0xD800) * 1024 + (r2' - 0xDC00) + 0x10000
          else RuneError
      | None \<Rightarrow> RuneError)"

definition simpleEscape :: "char \<Rightarrow> char option" where
  "simpleEscape e =
     (if e = CHR 0x22 \<or> e = CHR 0x5C \<or> e = CHR ''/'' then Some e
      else if e = CHR ''b'' then Some (CHR 0x08)
      else if e = CHR ''f'' then Some (CHR 0x0C)
      else if e = CHR ''n'' then Some (CHR 0x0A)
      else if e = CHR ''r'' then Some (CHR 0x0D)
      else if e = CHR ''t'' then Some (CHR 0x09)
      else None)"

definition emit :: "string \<Rightarrow> nat \<Rightarrow> (string \<times> nat) option \<Rightarrow> (string \<times> nat) option" where
  "emit out k r = map_option (\<lambda>(str, n). (out @ str, n + k)) r"

text \<open>
  \<open>unquote\<close> reads a string literal after its opening quote: the decoded bytes and the
  number of input bytes read, closing quote included. As in Go's \<open>unquoteBytes\<close>, an
  escaped surrogate pair becomes one code point, a surrogate without its partner and every
  byte that is not valid UTF-8 become U+FFFD. A control byte, an unknown escape and a
  missing closing quote are syntax errors.
\<close>

fun unquote :: "string \<Rightarrow> (string \<times> nat) option" where
  "unquote [] = None"
| "unquote (c # s) =
     (if c = CHR 0x22 then Some ([], 1)
      else if c = CHR 0x5C then
        (case s of
           [] \<Rightarrow> None
         | e # t \<Rightarrow>
             if e = CHR ''u'' then
               (case getu4 (c # s) of
                  None \<Rightarrow> None
                | Some rr \<Rightarrow>
                    if IsSurrogate rr then
                      (if utf16_DecodeRune rr (getu4 (drop 4 t)) \<noteq> RuneError
                       then emit (EncodeRune (utf16_DecodeRune rr (getu4 (drop 4 t)))) 12
                                 (unquote (drop 10 t))
                       else emit (EncodeRune RuneError) 6 (unquote (drop 4 t)))
                    else emit (EncodeRune rr) 6 (unquote (drop 4 t)))
             else
               (case simpleEscape e of
                  None \<Rightarrow> None
                | Some x \<Rightarrow> emit [x] 2 (unquote t)))
      else if byte c < 0x20 then None
      else if byte c < 0x80 then emit [c] 1 (unquote s)
      else emit (EncodeRune (fst (DecodeRune (c # s)))) (snd (DecodeRune (c # s)))
                (unquote (drop (snd (DecodeRune (c # s)) - 1) s)))"

text \<open>A number literal: an optional minus, \<open>0\<close> or a digit string without leading zero,
  an optional fraction and an optional exponent, each with at least one digit.\<close>

definition scanInteger :: "string \<Rightarrow> string option" where
  "scanInteger s =
     (case s of
        c # t \<Rightarrow>
          if c = CHR ''0'' then Some [c]
          else if isDigit c then Some (c # takeWhile isDigit t)
          else None
      | [] \<Rightarrow> None)"

definition scanFraction :: "string \<Rightarrow> string option" where
  "scanFraction s =
     (case s of
        c # t \<Rightarrow>
          if c = CHR ''.'' then
            (if takeWhile isDigit t = [] then None else Some (c # takeWhile isDigit t))
          else Some []
      | [] \<Rightarrow> Some [])"

definition scanExponent :: "string \<Rightarrow> string option" where
  "scanExponent s =
     (case s of
        c # t \<Rightarrow>
          if c = CHR ''e'' \<or> c = CHR ''E'' then
            (case t of
               d # u \<Rightarrow>
                 if d = CHR ''+'' \<or> d = CHR ''-'' then
                   (if takeWhile isDigit u = [] then None
                    else Some (c # d # takeWhile isDigit u))
                 else if takeWhile isDigit t = [] then None
                 else Some (c # takeWhile isDigit t)
             | [] \<Rightarrow> None)
          else Some []
      | [] \<Rightarrow> Some [])"

definition scanNumber :: "string \<Rightarrow> string option" where
  "scanNumber s =
     (let sgn = (if HasPrefix s ''-'' then ''-'' else [])
      in case scanInteger (drop (length sgn) s) of
           None \<Rightarrow> None
         | Some ip \<Rightarrow>
             (case scanFraction (drop (length sgn + length ip) s) of
                None \<Rightarrow> None
              | Some fp \<Rightarrow>
                  (case scanExponent (drop (length sgn + length ip + length fp) s) of
                     None \<Rightarrow> None
                   | Some ep \<Rightarrow> Some (sgn @ ip @ fp @ ep))))"

definition cons :: "token \<Rightarrow> token list option \<Rightarrow> token list option" where
  "cons t r = map_option ((#) t) r"

fun lex :: "string \<Rightarrow> token list option" where
  "lex [] = Some []"
| "lex (c # s) =
     (if isSpace c then lex s
      else if c = CHR ''{'' then cons TLBrace (lex s)
      else if c = CHR ''}'' then cons TRBrace (lex s)
      else if c = CHR ''['' then cons TLBracket (lex s)
      else if c = CHR '']'' then cons TRBracket (lex s)
      else if c = CHR '':'' then cons TColon (lex s)
      else if c = CHR '','' then cons TComma (lex s)
      else if c = CHR 0x22 then
        (case unquote s of
           None \<Rightarrow> None
         | Some (str, n) \<Rightarrow> cons (TString str) (lex (drop n s)))
      else if c = CHR ''-'' \<or> isDigit c then
        (case scanNumber (c # s) of
           None \<Rightarrow> None
         | Some lit \<Rightarrow> cons (TNumber lit) (lex (drop (length lit - 1) s)))
      else if HasPrefix (c # s) ''true'' then cons TTrue (lex (drop 3 s))
      else if HasPrefix (c # s) ''false'' then cons TFalse (lex (drop 4 s))
      else if HasPrefix (c # s) ''null'' then cons TNull (lex (drop 3 s))
      else None)"

text \<open>A JSON value. A number keeps its literal, a string its decoded bytes, an object its
  members in the order of the text, duplicate keys included.\<close>

datatype json = JNull | JBool bool | JNumber string | JString string
  | JArray "json list" | JObject "(string \<times> json) list"

text \<open>The scanner's stack of open containers (\<open>parseState\<close>), here with the part of each
  container read so far, and its states (\<open>stateBeginValue\<close>, \<open>stateBeginValueOrEmpty\<close>,
  \<open>stateBeginStringOrEmpty\<close>, \<open>stateBeginString\<close>, \<open>stateEndValue\<close>, \<open>stateEndTop\<close>);
  \<open>EndKey\<close> is \<open>stateEndValue\<close> after an object key.\<close>

datatype frame = parseObjectKey "(string \<times> json) list"
  | parseObjectValue "(string \<times> json) list" string
  | parseArrayValue "json list"

datatype pstate = BeginValue | BeginValueOrEmpty | BeginStringOrEmpty | BeginString
  | EndKey | EndValue | EndTop json

definition maxNestingDepth :: nat where
  "maxNestingDepth = 10000"

definition endValue :: "json \<Rightarrow> frame list \<Rightarrow> (pstate \<times> frame list) option" where
  "endValue v stack =
     (case stack of
        [] \<Rightarrow> Some (EndTop v, [])
      | parseObjectValue ms k # st \<Rightarrow> Some (EndValue, parseObjectKey (ms @ [(k, v)]) # st)
      | parseArrayValue els # st \<Rightarrow> Some (EndValue, parseArrayValue (els @ [v]) # st)
      | parseObjectKey ms # st \<Rightarrow> None)"

definition pushParseState ::
  "frame \<Rightarrow> pstate \<Rightarrow> frame list \<Rightarrow> (pstate \<times> frame list) option" where
  "pushParseState f successState stack =
     (if length (f # stack) \<le> maxNestingDepth then Some (successState, f # stack) else None)"

definition beginKey :: "token \<Rightarrow> frame list \<Rightarrow> (pstate \<times> frame list) option" where
  "beginKey t stack =
     (case (t, stack) of
        (TString k, parseObjectKey ms # st) \<Rightarrow> Some (EndKey, parseObjectValue ms k # st)
      | _ \<Rightarrow> None)"

definition beginValue :: "token \<Rightarrow> frame list \<Rightarrow> (pstate \<times> frame list) option" where
  "beginValue t stack =
     (case t of
        TLBrace \<Rightarrow> pushParseState (parseObjectKey []) BeginStringOrEmpty stack
      | TLBracket \<Rightarrow> pushParseState (parseArrayValue []) BeginValueOrEmpty stack
      | TString s \<Rightarrow> endValue (JString s) stack
      | TNumber lit \<Rightarrow> endValue (JNumber lit) stack
      | TTrue \<Rightarrow> endValue (JBool True) stack
      | TFalse \<Rightarrow> endValue (JBool False) stack
      | TNull \<Rightarrow> endValue JNull stack
      | _ \<Rightarrow> None)"

definition step :: "token \<Rightarrow> pstate \<times> frame list \<Rightarrow> (pstate \<times> frame list) option" where
  "step t cfg =
     (case cfg of (st, stack) \<Rightarrow>
       (case st of
          BeginValue \<Rightarrow> beginValue t stack
        | BeginValueOrEmpty \<Rightarrow>
            (case (t, stack) of
               (TRBracket, parseArrayValue els # rest) \<Rightarrow> endValue (JArray els) rest
             | _ \<Rightarrow> beginValue t stack)
        | BeginStringOrEmpty \<Rightarrow>
            (case (t, stack) of
               (TRBrace, parseObjectKey ms # rest) \<Rightarrow> endValue (JObject ms) rest
             | _ \<Rightarrow> beginKey t stack)
        | BeginString \<Rightarrow> beginKey t stack
        | EndKey \<Rightarrow> (case t of TColon \<Rightarrow> Some (BeginValue, stack) | _ \<Rightarrow> None)
        | EndValue \<Rightarrow>
            (case (t, stack) of
               (TComma, parseObjectKey ms # rest) \<Rightarrow> Some (BeginString, stack)
             | (TRBrace, parseObjectKey ms # rest) \<Rightarrow> endValue (JObject ms) rest
             | (TComma, parseArrayValue els # rest) \<Rightarrow> Some (BeginValue, stack)
             | (TRBracket, parseArrayValue els # rest) \<Rightarrow> endValue (JArray els) rest
             | _ \<Rightarrow> None)
        | EndTop v \<Rightarrow> None))"

fun run :: "token list \<Rightarrow> pstate \<times> frame list \<Rightarrow> json option" where
  "run [] cfg = (case cfg of (EndTop v, _) \<Rightarrow> Some v | _ \<Rightarrow> None)"
| "run (t # ts) cfg = (case step t cfg of None \<Rightarrow> None | Some cfg' \<Rightarrow> run ts cfg')"

definition parseJSON :: "string \<Rightarrow> json option" where
  "parseJSON data = (case lex data of None \<Rightarrow> None | Some ts \<Rightarrow> run ts (BeginValue, []))"

subsection \<open>float64 and strconv.ParseFloat\<close>

text \<open>
  A \<open>float64\<close> is its three IEEE 754 binary64 fields: the sign bit, the biased exponent
  (11 bits) and the fraction (52 bits). Go's zero value is positive zero.
\<close>

record float64 =
  Sign :: bool
  Exponent :: nat
  Mantissa :: nat

definition float64_zero :: float64 where
  "float64_zero = \<lparr>Sign = False, Exponent = 0, Mantissa = 0\<rparr>"

text \<open>\<open>bits.Len\<close>: the number of bits of a natural number.\<close>

fun bitlen :: "nat \<Rightarrow> nat" where
  "bitlen n = (if n = 0 then 0 else Suc (bitlen (n div 2)))"

declare bitlen.simps [simp del]

definition digitsVal :: "string \<Rightarrow> nat" where
  "digitsVal ds = foldl (\<lambda>a c. 10 * a + (byte c - 0x30)) 0 ds"

text \<open>The value of the exponent's digits, as \<open>strconv\<close> reads them: once the value has
  reached 10000, further digits are dropped.\<close>

definition exponentVal :: "string \<Rightarrow> nat" where
  "exponentVal ds = foldl (\<lambda>e c. if e < 10000 then 10 * e + (byte c - 0x30) else e) 0 ds"

definition roundHalfEven :: "nat \<Rightarrow> nat \<Rightarrow> nat" where
  "roundHalfEven n d =
     (let q = n div d; r = n mod d
      in if 2 * r < d then q
         else if d < 2 * r then q + 1
         else if even q then q
         else q + 1)"

text \<open>For a positive fraction \<open>num / den\<close>, the \<open>e\<close> with
  \<open>2 ^ e \<le> num / den < 2 ^ (e + 1)\<close>.\<close>

definition floorLog2 :: "nat \<Rightarrow> nat \<Rightarrow> int" where
  "floorLog2 num den =
     (let e0 = int (bitlen num) - int (bitlen den)
      in if den * 2 ^ nat e0 \<le> num * 2 ^ nat (- e0) then e0 else e0 - 1)"

text \<open>
  The binary64 value nearest to \<open>num / den\<close>, ties to the even fraction, with the given
  sign; \<open>None\<close> when the rounded value is beyond the largest finite number. Values below
  the normal range are rounded in units of \<open>2 ^ -1074\<close> (subnormal numbers, or zero).
\<close>

definition roundFloat64 :: "bool \<Rightarrow> nat \<Rightarrow> nat \<Rightarrow> float64 option" where
  "roundFloat64 neg num den =
     (if num = 0 then Some \<lparr>Sign = neg, Exponent = 0, Mantissa = 0\<rparr>
      else
        let e = max (floorLog2 num den) (- 1022);
            m = roundHalfEven (num * 2 ^ nat (52 - e)) (den * 2 ^ nat (e - 52));
            e' = (if m = 2 ^ 53 then e + 1 else e);
            m' = (if m = 2 ^ 53 then 2 ^ 52 else m)
        in if 1023 < e' then None
           else if m' < 2 ^ 52 then Some \<lparr>Sign = neg, Exponent = 0, Mantissa = m'\<rparr>
           else Some \<lparr>Sign = neg, Exponent = nat (e' + 1023), Mantissa = m' - 2 ^ 52\<rparr>)"

text \<open>
  \<open>strconv.ParseFloat(s, 64)\<close> on a number literal of the JSON grammar, the only texts the
  decoder passes to it: the nearest \<open>float64\<close>, or \<open>None\<close> for Go's range error
  (\<open>ErrRange\<close>). Other texts that Go accepts (hexadecimal mantissas, infinities, NaN,
  underscores) never reach it and are not modelled.
\<close>

definition ParseFloat :: "string \<Rightarrow> float64 option" where
  "ParseFloat s =
     (let neg = HasPrefix s ''-'';
          body = (if neg then drop 1 s else s);
          ip = takeWhile isDigit body;
          r1 = dropWhile isDigit body;
          fp = (if HasPrefix r1 ''.'' then takeWhile isDigit (drop 1 r1) else []);
          r2 = (if HasPrefix r1 ''.'' then dropWhile isDigit (drop 1 r1) else r1);
          eneg = HasPrefix (drop 1 r2) ''-'';
          ed = (if eneg \<or> HasPrefix (drop 1 r2) ''+'' then drop 2 r2 else drop 1 r2);
          e10 = (if eneg then - int (exponentVal ed) else int (exponentVal ed))
                  - int (length fp);
          m = digitsVal (ip @ fp)
      in roundFloat64 neg (m * 10 ^ nat e10) (10 ^ nat (- e10)))"

subsection \<open>Errors\<close>

text \<open>
  The error values the program can see. \<open>IOError\<close> is an error of the operating system
  or the network (from \<open>os.ReadFile\<close>, \<open>http.Get\<close> or \<open>io.ReadAll\<close>) with its message;
  \<open>SyntaxError\<close> and \<open>UnmarshalTypeError\<close> are those of \<open>encoding/json\<close>, the second with
  its \<open>Value\<close> field, the description of the JSON value that did not fit.
\<close>

datatype error = IOError string | SyntaxError | UnmarshalTypeError string

subsection \<open>json.Unmarshal into the program's structs\<close>

record apiConfigData =
  OpenWeatherMapApiKey :: string

text \<open>The anonymous struct of the field \<open>Main\<close> is the record \<open>Main_t\<close>.\<close>

record Main_t =
  Kelvin :: float64

record weatherData =
  Name :: string
  Main :: Main_t

definition apiConfigData_zero :: apiConfigData where
  "apiConfigData_zero = \<lparr>OpenWeatherMapApiKey = []\<rparr>"

definition weatherData_zero :: weatherData where
  "weatherData_zero = \<lparr>Name = [], Main = \<lparr>Kelvin = float64_zero\<rparr>\<rparr>"

text \<open>
  A key of the JSON object selects the struct field whose name it equals or, failing
  that, equals under Unicode simple case folding. \<open>foldName\<close> folds to upper case; the
  only code points beyond ASCII that fold to an ASCII letter are the Kelvin sign U+212A
  (to \<open>K\<close>) and the long s U+017F (to \<open>S\<close>). Other bytes beyond ASCII are left as they
  are, which decides equality with the names of this program, all ASCII.
\<close>

fun foldName :: "string \<Rightarrow> string" where
  "foldName [] = []"
| "foldName (c # s) =
     (if HasPrefix (c # s) [CHR 0xE2, CHR 0x84, CHR 0xAA] then CHR ''K'' # foldName (drop 2 s)
      else if HasPrefix (c # s) [CHR 0xC5, CHR 0xBF] then CHR ''S'' # foldName (drop 1 s)
      else if 0x61 \<le> byte c \<and> byte c \<le> 0x7A then char_of (byte c - 0x20) # foldName s
      else c # foldName s)"

definition fieldMatch :: "string \<Rightarrow> string \<Rightarrow> bool" where
  "fieldMatch key name = (key = name \<or> foldName key = foldName name)"

text \<open>The decoder keeps the first type error and goes on (\<open>saveError\<close>).\<close>

definition saveError :: "error \<Rightarrow> error option \<Rightarrow> error option" where
  "saveError e saved = (case saved of None \<Rightarrow> Some e | Some e0 \<Rightarrow> Some e0)"

fun valueKind :: "json \<Rightarrow> string" where
  "valueKind JNull = ''null''"
| "valueKind (JBool b) = ''bool''"
| "valueKind (JNumber lit) = ''number''"
| "valueKind (JString s) = ''string''"
| "valueKind (JArray els) = ''array''"
| "valueKind (JObject ms) = ''object''"

text \<open>
  Storing a JSON value into a destination of kind string, float64 or struct. \<open>null\<close>
  leaves the destination as it is; a value of another kind leaves it as it is and saves a
  type error; a number beyond the range of \<open>float64\<close> saves a type error too. A struct
  takes the members of an object in the order of the text, so that a later member
  overwrites what an earlier one stored; members that match no field are skipped.
\<close>

definition storeString :: "json \<Rightarrow> string \<times> error option \<Rightarrow> string \<times> error option" where
  "storeString v acc =
     (case v of
        JNull \<Rightarrow> acc
      | JString s \<Rightarrow> (s, snd acc)
      | _ \<Rightarrow> (fst acc, saveError (UnmarshalTypeError (valueKind v)) (snd acc)))"

definition storeFloat64 :: "json \<Rightarrow> float64 \<times> error option \<Rightarrow> float64 \<times> error option" where
  "storeFloat64 v acc =
     (case v of
        JNull \<Rightarrow> acc
      | JNumber lit \<Rightarrow>
          (case ParseFloat lit of
             None \<Rightarrow> (fst acc, saveError (UnmarshalTypeError (''number '' @ lit)) (snd acc))
           | Some f \<Rightarrow> (f, snd acc))
      | _ \<Rightarrow> (fst acc, saveError (UnmarshalTypeError (valueKind v)) (snd acc)))"

definition storeStruct ::
  "(string \<Rightarrow> json \<Rightarrow> 'a \<times> error option \<Rightarrow> 'a \<times> error option)
    \<Rightarrow> json \<Rightarrow> 'a \<times> error option \<Rightarrow> 'a \<times> error option" where
  "storeStruct field v acc =
     (case v of
        JNull \<Rightarrow> acc
      | JObject ms \<Rightarrow> foldl (\<lambda>a (k, x). field k x a) acc ms
      | _ \<Rightarrow> (fst acc, saveError (UnmarshalTypeError (valueKind v)) (snd acc)))"

text \<open>The fields of the three structs, by their \<open>json\<close> tags.\<close>

definition field_apiConfigData ::
  "string \<Rightarrow> json \<Rightarrow> apiConfigData \<times> error option \<Rightarrow> apiConfigData \<times> error option" where
  "field_apiConfigData k v acc =
     (if fieldMatch k ''OpenWeatherMapApiKey'' then
        (case storeString v (OpenWeatherMapApiKey (fst acc), snd acc) of
           (s, e) \<Rightarrow> ((fst acc)\<lparr>OpenWeatherMapApiKey := s\<rparr>, e))
      else acc)"

definition field_Main ::
  "string \<Rightarrow> json \<Rightarrow> Main_t \<times> error option \<Rightarrow> Main_t \<times> error option" where
  "field_Main k v acc =
     (if fieldMatch k ''temp'' then
        (case storeFloat64 v (Kelvin (fst acc), snd acc) of
           (f, e) \<Rightarrow> ((fst acc)\<lparr>Kelvin := f\<rparr>, e))
      else acc)"

definition field_weatherData ::
  "string \<Rightarrow> json \<Rightarrow> weatherData \<times> error option \<Rightarrow> weatherData \<times> error option" where
  "field_weatherData k v acc =
     (if fieldMatch k ''name'' then
        (case storeString v (Name (fst acc), snd acc) of
           (s, e) \<Rightarrow> ((fst acc)\<lparr>Name := s\<rparr>, e))
      else if fieldMatch k ''main'' then
        (case storeStruct field_Main v (Main (fst acc), snd acc) of
           (m, e) \<Rightarrow> ((fst acc)\<lparr>Main := m\<rparr>, e))
      else acc)"

text \<open>
  \<open>json.Unmarshal(data, &v)\<close> for a struct \<open>v\<close> with the given fields: the struct after
  the call and the error returned. A text that is not well-formed leaves the struct
  untouched.
\<close>

definition Unmarshal ::
  "(string \<Rightarrow> json \<Rightarrow> 'a \<times> error option \<Rightarrow> 'a \<times> error option)
    \<Rightarrow> string \<Rightarrow> 'a \<Rightarrow> 'a \<times> error option" where
  "Unmarshal field data v =
     (case parseJSON data of
        None \<Rightarrow> (v, Some SyntaxError)
      | Some j \<Rightarrow> storeStruct field j (v, None))"

subsection \<open>The world outside the process\<close>

text \<open>
  \<open>os.ReadFile\<close> and \<open>http.Get\<close> are functions of the world: a file name gives the bytes
  of the file or an error, a URL gives a response or an error. Of a response the model
  keeps the status code and what \<open>io.ReadAll\<close> makes of its body. Each call that leaves
  the process is an event; the line written by \<open>fmt.Println\<close> ends in a newline.
\<close>

record response =
  StatusCode :: nat
  Body :: "error + string"

record world =
  ReadFile :: "string \<Rightarrow> error + string"
  Get :: "string \<Rightarrow> error + response"

datatype event = FileRead string | Stdout string | HttpGet string

text \<open>The URLs of the outbound requests of a trace, in order.\<close>

fun requests :: "event list \<Rightarrow> string list" where
  "requests [] = []"
| "requests (HttpGet u # t) = u # requests t"
| "requests (e # t) = requests t"

subsection \<open>loadApiConfig and query\<close>

definition loadApiConfig ::
  "world \<Rightarrow> string \<Rightarrow> (apiConfigData \<times> error option) \<times> event list" where
  "loadApiConfig w filename =
     (case ReadFile w filename of
        Inl err \<Rightarrow> ((apiConfigData_zero, Some err), [FileRead filename])
      | Inr bytes \<Rightarrow>
          (case Unmarshal field_apiConfigData bytes apiConfigData_zero of
             (c, Some err) \<Rightarrow> ((apiConfigData_zero, Some err), [FileRead filename])
           | (c, None) \<Rightarrow> ((c, None), [FileRead filename])))"

text \<open>The URL that \<open>fmt.Sprintf\<close> builds in \<open>query\<close>: both \<open>%s\<close> insert their string as
  it is.\<close>

definition requestURL :: "string \<Rightarrow> string \<Rightarrow> string" where
  "requestURL city key =
     ''https://api.openweathermap.org/data/2.5/weather?q='' @ city
       @ ''&appid='' @ key @ ''&units=metric''"

definition query :: "world \<Rightarrow> string \<Rightarrow> (weatherData \<times> error option) \<times> event list" where
  "query w city =
     (case loadApiConfig w ''.apiConfig'' of
        ((apiConfig, Some err), t0) \<Rightarrow> ((weatherData_zero, Some err), t0)
      | ((apiConfig, None), t0) \<Rightarrow>
          (let url = requestURL city (OpenWeatherMapApiKey apiConfig);
               t1 = t0 @ [Stdout (''Requesting URL: '' @ url @ [CHR 0x0A]), HttpGet url]
           in case Get w url of
                Inl err \<Rightarrow> ((weatherData_zero, Some err), t1)
              | Inr resp \<Rightarrow>
                  (case Body resp of
                     Inl err \<Rightarrow> ((weatherData_zero, Some err), t1)
                   | Inr body \<Rightarrow>
                       (case Unmarshal field_weatherData body weatherData_zero of
                          (d, Some err) \<Rightarrow>
                            ((weatherData_zero, Some err), t1 @ [Stdout (body @ [CHR 0x0A])])
                        | (d, None) \<Rightarrow>
                            ((d, None), t1 @ [Stdout (body @ [CHR 0x0A])])))))"

subsection \<open>The handler of /weather/\<close>

text \<open>
  A \<open>http.ResponseWriter\<close>: the header map, the status code once it is written, and the
  bytes of the body. The first \<open>Write\<close> writes status 200 if none was written before; a
  handler that returns without writing anything sends status 200 as well
  (\<open>sentStatus\<close>).
\<close>

record ResponseWriter =
  Header :: "string \<Rightarrow> string option"
  Status :: "nat option"
  Written :: string

definition newResponseWriter :: ResponseWriter where
  "newResponseWriter = \<lparr>Header = Map.empty, Status = None, Written = []\<rparr>"

definition WriteHeader :: "nat \<Rightarrow> ResponseWriter \<Rightarrow> ResponseWriter" where
  "WriteHeader code rw = (if Status rw = None then rw\<lparr>Status := Some code\<rparr> else rw)"

definition Write :: "string \<Rightarrow> ResponseWriter \<Rightarrow> ResponseWriter" where
  "Write b rw = (WriteHeader 200 rw)\<lparr>Written := Written rw @ b\<rparr>"

definition sentStatus :: "ResponseWriter \<Rightarrow> nat" where
  "sentStatus rw = (case Status rw of None \<Rightarrow> 200 | Some code \<Rightarrow> code)"

text \<open>\<open>http.Error\<close>: a plain-text reply with the given status; the message is written
  with \<open>fmt.Fprintln\<close>, that is, followed by a newline. The header \<open>Content-Length\<close> is
  deleted first; the handler calls it on a fresh header, where that changes nothing.\<close>

definition http_Error :: "string \<Rightarrow> nat \<Rightarrow> ResponseWriter \<Rightarrow> ResponseWriter" where
  "http_Error msg code rw =
     Write (msg @ [CHR 0x0A])
       (WriteHeader code
         (rw\<lparr>Header := (Header rw)
               (''Content-Length'' := None,
                ''Content-Type'' \<mapsto> ''text/plain; charset=utf-8'',
                ''X-Content-Type-Options'' \<mapsto> ''nosniff'')\<rparr>))"

text \<open>The handler of \<open>/hello\<close> writes its greeting.\<close>

definition hello :: "ResponseWriter \<Rightarrow> ResponseWriter" where
  "hello rw = Write (''Hello from go!'' @ [CHR 0x0A]) rw"

text \<open>
  Texts of the standard library that the handler takes as a parameter: the message of an
  error value (its \<open>Error\<close> method), and \<open>encoding/json\<close>'s text of a string (quoted and
  escaped) and of a finite \<open>float64\<close>. The last two are defined further down, as the
  library documents them (\<open>jsonLibrary\<close>); the message of an error is not computed.
\<close>

record stdlib =
  Error :: "error \<Rightarrow> string"
  appendString :: "string \<Rightarrow> string"
  appendFloat :: "float64 \<Rightarrow> string"

text \<open>
  \<open>json.NewEncoder(w).Encode(data)\<close> for a \<open>weatherData\<close>: the object with the members
  \<open>name\<close> and \<open>main\<close> of the struct tags, without spaces, followed by a newline. An
  infinity or a NaN (exponent field 2047) is an \<open>UnsupportedValueError\<close>, and nothing is
  written; the handler drops that error.
\<close>

definition Encode :: "stdlib \<Rightarrow> weatherData \<Rightarrow> string option" where
  \<open>Encode L d =
     (if Exponent (Kelvin (Main d)) = 2047 then None
      else Some (''{"name":'' @ appendString L (Name d) @ '',"main":{"temp":''
                 @ appendFloat L (Kelvin (Main d)) @ ''}}'' @ [CHR 0x0A]))\<close>

text \<open>The handler, on the path of the request URL and a fresh \<open>ResponseWriter\<close>: the
  response it leaves and the events of the call.\<close>

definition weatherHandler :: "stdlib \<Rightarrow> world \<Rightarrow> string \<Rightarrow> ResponseWriter \<times> event list" where
  "weatherHandler L w path =
     (let parts = SplitN path ''/'' 3
      in if length parts < 3 then
           (http_Error ''City not specified'' 400 newResponseWriter, [])
         else
           (case query w (parts ! 2) of
              ((data, Some err), t) \<Rightarrow> (http_Error (Error L err) 500 newResponseWriter, t)
            | ((data, None), t) \<Rightarrow>
                (case Encode L data of
                   None \<Rightarrow>
                     (newResponseWriter\<lparr>Header := (Header newResponseWriter)
                        (''Content-Type'' \<mapsto> ''application/json; charset=utf8'')\<rparr>, t)
                 | Some b \<Rightarrow>
                     (Write b (newResponseWriter\<lparr>Header := (Header newResponseWriter)
                        (''Content-Type'' \<mapsto> ''application/json; charset=utf8'')\<rparr>), t))))"

text \<open>A world for examples: reading the file \<open>.apiConfig\<close> gives \<open>cfg\<close>, no other file
  exists, and every request is answered with the given status and body.\<close>

definition exampleWorld :: "error + string \<Rightarrow> nat \<Rightarrow> string \<Rightarrow> world" where
  "exampleWorld cfg status body =
     \<lparr>ReadFile = (\<lambda>f. if f = ''.apiConfig'' then cfg
                       else Inl (IOError (''open '' @ f @ '': no such file or directory''))),
      Get = (\<lambda>u. Inr \<lparr>StatusCode = status, Body = Inr body\<rparr>)\<rparr>"

subsection \<open>JSON values that fit the structs\<close>

text \<open>
  What the statements below say about a JSON text, in the words of the specification
  rather than of the decoder: the members of an object that select a field, and when a
  value fits a field. A value fits a string field when it is a string or \<open>null\<close>; it fits
  the temperature when it is \<open>null\<close> or a number within the range of \<open>float64\<close>; it fits a
  struct when it is \<open>null\<close> or an object in which each member that selects a field fits
  that field. Members that are absent are no obstacle.
\<close>

definition membersFor :: "string \<Rightarrow> (string \<times> json) list \<Rightarrow> json list" where
  "membersFor name ms = map snd (filter (\<lambda>(k, v). fieldMatch k name) ms)"

fun isJString :: "json \<Rightarrow> bool" where
  "isJString (JString s) = True"
| "isJString v = False"

fun stringOf :: "json \<Rightarrow> string" where
  "stringOf (JString s) = s"
| "stringOf v = []"

definition fitsString :: "json \<Rightarrow> bool" where
  "fitsString v = (case v of JNull \<Rightarrow> True | JString s \<Rightarrow> True | _ \<Rightarrow> False)"

definition fitsFloat64 :: "json \<Rightarrow> bool" where
  "fitsFloat64 v =
     (case v of JNull \<Rightarrow> True | JNumber lit \<Rightarrow> ParseFloat lit \<noteq> None | _ \<Rightarrow> False)"

definition fitsMain :: "json \<Rightarrow> bool" where
  "fitsMain v =
     (case v of
        JNull \<Rightarrow> True
      | JObject ms \<Rightarrow> list_all fitsFloat64 (membersFor ''temp'' ms)
      | _ \<Rightarrow> False)"

definition fitsWeatherData :: "json \<Rightarrow> bool" where
  "fitsWeatherData v =
     (case v of
        JNull \<Rightarrow> True
      | JObject ms \<Rightarrow>
          list_all fitsString (membersFor ''name'' ms)
          \<and> list_all fitsMain (membersFor ''main'' ms)
      | _ \<Rightarrow> False)"

text \<open>The world \<open>w\<close> with the status code of every response replaced by \<open>s\<close>.\<close>

definition withStatus :: "nat \<Rightarrow> world \<Rightarrow> world" where
  "withStatus s w =
     w\<lparr>Get := (\<lambda>u. case Get w u of
                      Inl err \<Rightarrow> Inl err
                    | Inr resp \<Rightarrow> Inr (resp\<lparr>StatusCode := s\<rparr>))\<rparr>"

subsection \<open>The texts that the encoder writes\<close>

text \<open>
  The two texts that \<open>Encode\<close> takes from the library, as \<open>encoding/json\<close> and \<open>strconv\<close>
  document them. They are defined apart from the handler, which is stated for any such
  texts.

  \<open>utf8.ValidString\<close>: every byte belongs to a well-formed UTF-8 sequence.
\<close>

fun ValidString :: "string \<Rightarrow> bool" where
  "ValidString [] = True"
| "ValidString (c # s) =
     (DecodeRune (c # s) \<noteq> (RuneError, 1)
      \<and> ValidString (drop (snd (DecodeRune (c # s)) - 1) s))"

text \<open>
  A string is written between quotes. The encoder of \<open>json.NewEncoder\<close> escapes HTML:
  the quote and the backslash get a backslash; backspace, form feed, newline, carriage
  return and tab are written as a backslash and \<open>b\<close>, \<open>f\<close>, \<open>n\<close>, \<open>r\<close>, \<open>t\<close>; the
  other control bytes and \<open><\<close>, \<open>>\<close>, \<open>&\<close> are written as a backslash, \<open>u00\<close> and their two
  hexadecimal digits; U+2028 and U+2029 are written as a backslash and \<open>u2028\<close>,
  \<open>u2029\<close>; a byte that does not belong to a well-formed UTF-8 sequence is written as a
  backslash and \<open>ufffd\<close>; every other byte is copied.
\<close>

definition hexDigit :: "nat \<Rightarrow> char" where
  "hexDigit n = (if n < 10 then char_of (0x30 + n) else char_of (0x57 + n))"

definition htmlSafe :: "char \<Rightarrow> bool" where
  "htmlSafe c =
     (0x20 \<le> byte c \<and> byte c < 0x80 \<and> c \<noteq> CHR 0x22 \<and> c \<noteq> CHR 0x5C
      \<and> c \<noteq> CHR ''&'' \<and> c \<noteq> CHR ''<'' \<and> c \<noteq> CHR ''>'')"

definition escapeByte :: "char \<Rightarrow> string" where
  "escapeByte c =
     (if c = CHR 0x5C \<or> c = CHR 0x22 then [CHR 0x5C, c]
      else if c = CHR 0x08 then [CHR 0x5C, CHR ''b'']
      else if c = CHR 0x0C then [CHR 0x5C, CHR ''f'']
      else if c = CHR 0x0A then [CHR 0x5C, CHR ''n'']
      else if c = CHR 0x0D then [CHR 0x5C, CHR ''r'']
      else if c = CHR 0x09 then [CHR 0x5C, CHR ''t'']
      else [CHR 0x5C, CHR ''u'', CHR ''0'', CHR ''0'',
            hexDigit (byte c div 16), hexDigit (byte c mod 16)])"

fun appendStringBody :: "string \<Rightarrow> string" where
  "appendStringBody [] = []"
| "appendStringBody (c # s) =
     (if byte c < 0x80 then
        (if htmlSafe c then [c] else escapeByte c) @ appendStringBody s
      else if DecodeRune (c # s) = (RuneError, 1) then
        [CHR 0x5C, CHR ''u'', CHR ''f'', CHR ''f'', CHR ''f'', CHR ''d''] @ appendStringBody s
      else if fst (DecodeRune (c # s)) = 0x2028 \<or> fst (DecodeRune (c # s)) = 0x2029 then
        [CHR 0x5C, CHR ''u'', CHR ''2'', CHR ''0'', CHR ''2'',
         hexDigit (fst (DecodeRune (c # s)) mod 16)]
          @ appendStringBody (drop (snd (DecodeRune (c # s)) - 1) s)
      else
        take (snd (DecodeRune (c # s))) (c # s)
          @ appendStringBody (drop (snd (DecodeRune (c # s)) - 1) s))"

definition encodeString :: "string \<Rightarrow> string" where
  "encodeString s = CHR 0x22 # appendStringBody s @ [CHR 0x22]"

text \<open>
  A finite \<open>float64\<close> is \<open>significand * 2 ^ binaryExponent\<close>, and so it has a finite
  decimal expansion: \<open>exactDecimal\<close> gives it as a natural number \<open>D\<close> and a power of ten
  \<open>q\<close>, the value being \<open>D * 10 ^ q\<close>.
\<close>

definition significand :: "float64 \<Rightarrow> nat" where
  "significand f = (if Exponent f = 0 then Mantissa f else 2 ^ 52 + Mantissa f)"

definition binaryExponent :: "float64 \<Rightarrow> int" where
  "binaryExponent f = (if Exponent f = 0 then - 1074 else int (Exponent f) - 1075)"

definition exactDecimal :: "float64 \<Rightarrow> nat \<times> int" where
  "exactDecimal f =
     (if 0 \<le> binaryExponent f then (significand f * 2 ^ nat (binaryExponent f), 0)
      else (significand f * 5 ^ nat (- binaryExponent f), binaryExponent f))"

text \<open>The decimal digits of a natural number (\<open>strconv.Itoa\<close>), and a digit string
  without its trailing zeros.\<close>

fun digitsOf :: "nat \<Rightarrow> string" where
  "digitsOf n =
     (if n < 10 then [char_of (0x30 + n)]
      else digitsOf (n div 10) @ [char_of (0x30 + n mod 10)])"

declare digitsOf.simps [simp del]

definition trimZeros :: "string \<Rightarrow> string" where
  "trimZeros ds = rev (dropWhile (\<lambda>c. c = CHR ''0'') (rev ds))"

text \<open>
  A number is written as its integer digits, a point and the fraction digits if there
  are any, and \<open>e\<close>, a sign and the exponent digits if there are any (\<open>literal\<close>).
  The formats \<open>'f'\<close> and \<open>'e'\<close> of \<open>strconv.FormatFloat\<close> with precision \<open>-1\<close>, for the
  digits \<open>ds\<close> and the position \<open>dp\<close> of the decimal point (the value is \<open>0.ds * 10 ^ dp\<close>):
  \<open>'f'\<close> writes the digits with the point in its place, padding with zeros, and no point
  when no digit follows it; \<open>'e'\<close> writes one digit, the point and the other digits, and
  the exponent \<open>dp - 1\<close> with its sign and at least two digits. After the format \<open>'e'\<close>
  the encoder turns an exponent \<open>e-0X\<close> into \<open>e-X\<close>; \<open>fmtE\<close> is the text after that step,
  so that a negative exponent is written without a leading zero.
\<close>

definition literal :: "string \<Rightarrow> string \<Rightarrow> bool \<Rightarrow> string \<Rightarrow> string" where
  "literal ip fd eneg ed =
     ip @ (if fd = [] then [] else CHR ''.'' # fd)
     @ (if ed = [] then [] else CHR ''e'' # (if eneg then CHR ''-'' else CHR ''+'') # ed)"

definition fmtF :: "string \<Rightarrow> int \<Rightarrow> string" where
  "fmtF ds dp =
     literal
       (if 0 < dp then take (nat dp) ds @ replicate (nat dp - length ds) (CHR ''0'')
        else ''0'')
       (if dp < int (length ds) then replicate (nat (- dp)) (CHR ''0'') @ drop (nat dp) ds
        else [])
       False []"

definition fmtE :: "string \<Rightarrow> int \<Rightarrow> string" where
  "fmtE ds dp =
     literal (take 1 ds) (drop 1 ds) (dp - 1 < 0)
       (if dp - 1 < 0 then digitsOf (nat (1 - dp))
        else (if dp - 1 < 10 then ''0'' else []) @ digitsOf (nat (dp - 1)))"

text \<open>The text of \<open>n * 10 ^ e\<close> for a positive \<open>n\<close>, with the sign and in the format
  given.\<close>

definition decimalText :: "bool \<Rightarrow> bool \<Rightarrow> nat \<Rightarrow> int \<Rightarrow> string" where
  "decimalText neg useE n e =
     (if neg then ''-'' else [])
     @ (if useE then fmtE (trimZeros (digitsOf n)) (int (length (digitsOf n)) + e)
        else fmtF (trimZeros (digitsOf n)) (int (length (digitsOf n)) + e))"

text \<open>
  Precision \<open>-1\<close> asks for the smallest number of digits necessary to represent the value
  uniquely, that is, for the shortest decimal that \<open>ParseFloat\<close> reads back as the same
  \<open>float64\<close>. \<open>shortest ok D q p\<close> looks for it from the exact expansion \<open>D * 10 ^ q\<close>:
  dropping the last \<open>p\<close> digits of \<open>D\<close> leaves the two neighbours \<open>lo\<close> and \<open>lo + 1\<close> of the
  value among the decimals with that many digits; the first \<open>p\<close>, from the largest down,
  at which a neighbour reads back gives the result, the nearer neighbour if both do
  (the even one if they are equally near). With nothing dropped the decimal is the exact
  expansion.
\<close>

fun shortest :: "(nat \<Rightarrow> int \<Rightarrow> bool) \<Rightarrow> nat \<Rightarrow> int \<Rightarrow> nat \<Rightarrow> nat \<times> int" where
  "shortest ok D q 0 = (D, q)"
| "shortest ok D q (Suc p) =
     (let lo = D div 10 ^ Suc p; r = D mod 10 ^ Suc p; e = q + int (Suc p)
      in if ok lo e \<and> ok (lo + 1) e then
           (if 2 * r < 10 ^ Suc p \<or> (2 * r = 10 ^ Suc p \<and> even lo) then (lo, e)
            else (lo + 1, e))
         else if ok lo e then (lo, e)
         else if ok (lo + 1) e then (lo + 1, e)
         else shortest ok D q p)"

text \<open>
  The encoder writes a finite \<open>float64\<close> in the format \<open>'e'\<close> when its absolute value is
  not zero and is below \<open>1e-6\<close> or at least \<open>1e21\<close>, and in the format \<open>'f'\<close> otherwise.
  Both bounds are \<open>float64\<close> constants, and absolute values of finite numbers compare as
  their exponent and fraction fields do. Zero is written \<open>0\<close>, or \<open>-0\<close> with the sign bit.
\<close>

definition lessAbs :: "float64 \<Rightarrow> float64 \<Rightarrow> bool" where
  "lessAbs f g =
     (Exponent f < Exponent g \<or> (Exponent f = Exponent g \<and> Mantissa f < Mantissa g))"

definition float64_1e_6 :: float64 where
  "float64_1e_6 = \<lparr>Sign = False, Exponent = 1003, Mantissa = 0x0C6F7A0B5ED8D\<rparr>"

definition float64_1e21 :: float64 where
  "float64_1e21 = \<lparr>Sign = False, Exponent = 1092, Mantissa = 0xB1AE4D6E2EF50\<rparr>"

definition encodeFloat :: "float64 \<Rightarrow> string" where
  "encodeFloat f =
     (if Exponent f = 0 \<and> Mantissa f = 0 then (if Sign f then ''-0'' else ''0'')
      else
        let useE = (lessAbs f float64_1e_6 \<or> \<not> lessAbs f float64_1e21);
            ok = (\<lambda>n e. ParseFloat (decimalText (Sign f) useE n e) = Some f);
            D = fst (exactDecimal f);
            q = snd (exactDecimal f);
            r = shortest ok D q (length (digitsOf D) - 1)
        in decimalText (Sign f) useE (fst r) (snd r))"

text \<open>The three fields are those of a finite \<open>float64\<close>: the exponent field is not 2047,
  which marks the infinities and NaN, and the fraction has 52 bits.\<close>

definition isFinite :: "float64 \<Rightarrow> bool" where
  "isFinite f = (Exponent f < 2047 \<and> Mantissa f < 2 ^ 52)"

text \<open>The library with these two texts; the messages of errors stay a parameter.\<close>

definition jsonLibrary :: "(error \<Rightarrow> string) \<Rightarrow> stdlib" where
  "jsonLibrary msg = \<lparr>Error = msg, appendString = encodeString, appendFloat = encodeFloat\<rparr>"

section \<open>Properties\<close>

subsection \<open>Evaluation on concrete inputs\<close>

lemma char_of_bits:
  "char_of (n::nat) = Char (odd n) (odd (n div 2)) (odd (n div 4)) (odd (n div 8))
     (odd (n div 16)) (odd (n div 32)) (odd (n div 64)) (odd (n div 128))"
  by (simp add: char_of_def bit_iff_odd_drop_bit drop_bit_eq_div)

lemmas json_eval = byte_def emit_def simpleEscape_def getu4_def hexVal_def IsSurrogate_def
  utf16_DecodeRune_def EncodeRune_def DecodeRune_def DecodeRune1_def isCont_def RuneError_def
  char_of_bits isSpace_def isDigit_def HasPrefix_def scanNumber_def scanInteger_def
  scanFraction_def scanExponent_def cons_def parseJSON_def step_def beginValue_def beginKey_def
  pushParseState_def endValue_def maxNestingDepth_def

lemmas float_eval = ParseFloat_def roundFloat64_def floorLog2_def roundHalfEven_def
  digitsVal_def exponentVal_def bitlen.simps Let_def

lemmas store_eval = storeStruct_def field_weatherData_def field_Main_def
  field_apiConfigData_def storeString_def storeFloat64_def saveError_def fieldMatch_def
  weatherData_zero_def apiConfigData_zero_def float64_zero_def

lemma membersFor_eval:
  "membersFor name [] = []"
  "membersFor name ((k, v) # ms) =
     (if fieldMatch k name then v # membersFor name ms else membersFor name ms)"
  by (simp_all add: membersFor_def)


subsection \<open>The path of the request\<close>

lemma splitLoop_2:
  "splitLoop s sep 2 =
     (case Index s sep of
        None \<Rightarrow> [s]
      | Some m \<Rightarrow>
          take m s #
          (case Index (drop (m + length sep) s) sep of
             None \<Rightarrow> [drop (m + length sep) s]
           | Some m' \<Rightarrow>
               [take m' (drop (m + length sep) s),
                drop (m' + length sep) (drop (m + length sep) s)]))"
  by (simp add: numeral_2_eq_2 split: option.splits)

lemma SplitN_weather: "SplitN (''/weather/'' @ rest) ''/'' 3 = ['''', ''weather'', rest]"
  by (simp add: SplitN_def splitLoop_2 HasPrefix_def)

lemma length_splitLoop: "length (splitLoop s sep k) \<le> Suc k"
  by (induction k arbitrary: s) (auto split: option.splits)

lemma length_SplitN_3: "length (SplitN path ''/'' 3) \<le> 3"
proof -
  have "length (splitLoop path ''/'' ((if 3 > length path + 1 then length path + 1 else 3) - 1))
          \<le> Suc ((if 3 > length path + 1 then length path + 1 else 3) - 1)"
    by (rule length_splitLoop)
  then show ?thesis by (simp add: SplitN_def split: if_splits)
qed

lemma SplitN_three:
  assumes "3 \<le> length (SplitN path ''/'' 3)"
  shows "\<exists>a b. SplitN path ''/'' 3 = [a, b, SplitN path ''/'' 3 ! 2]"
proof -
  from assms length_SplitN_3 [of path] have "length (SplitN path ''/'' 3) = 3"
    by simp
  then show ?thesis
    by (cases "SplitN path ''/'' 3" rule: list.exhaust)
       (auto simp: length_Suc_conv numeral_3_eq_3)
qed

subsection \<open>Numbers read by ParseFloat are finite\<close>

lemma roundFloat64_finite: "roundFloat64 neg num den = Some f \<Longrightarrow> Exponent f \<le> 2046"
  by (auto simp: roundFloat64_def Let_def max_def split: if_splits)

lemma ParseFloat_finite: "ParseFloat s = Some f \<Longrightarrow> Exponent f \<le> 2046"
  unfolding ParseFloat_def Let_def by (rule roundFloat64_finite)

lemma storeFloat64_finite:
  "Exponent (fst acc) \<le> 2046 \<Longrightarrow> Exponent (fst (storeFloat64 v acc)) \<le> 2046"
  by (cases v) (auto simp: storeFloat64_def dest: ParseFloat_finite split: option.splits)

lemma field_Main_finite:
  "Exponent (Kelvin (fst acc)) \<le> 2046 \<Longrightarrow> Exponent (Kelvin (fst (field_Main k v acc))) \<le> 2046"
  using storeFloat64_finite [of "(Kelvin (fst acc), snd acc)" v]
  by (auto simp: field_Main_def split: prod.splits)

lemma foldl_invariant:
  assumes "\<And>k x a. P a \<Longrightarrow> P (field k x a)" and "P acc"
  shows "P (foldl (\<lambda>a (k, x). field k x a) acc ms)"
  using assms(2) by (induction ms arbitrary: acc) (auto intro: assms(1))

lemma storeStruct_invariant:
  assumes "\<And>k x a. P a \<Longrightarrow> P (field k x a)" and "P acc"
    and "\<And>a e. P a \<Longrightarrow> P (fst a, e)"
  shows "P (storeStruct field v acc)"
proof (cases v)
  case (JObject ms)
  then show ?thesis
    using foldl_invariant [of P field acc ms] assms(1,2) by (simp add: storeStruct_def)
qed (use assms(2,3) in \<open>auto simp: storeStruct_def\<close>)

lemma storeStruct_Main_finite:
  "Exponent (Kelvin (fst acc)) \<le> 2046
    \<Longrightarrow> Exponent (Kelvin (fst (storeStruct field_Main v acc))) \<le> 2046"
  by (rule storeStruct_invariant [where P = "\<lambda>a. Exponent (Kelvin (fst a)) \<le> 2046"])
     (auto intro: field_Main_finite)

lemma field_weatherData_finite:
  "Exponent (Kelvin (Main (fst acc))) \<le> 2046
    \<Longrightarrow> Exponent (Kelvin (Main (fst (field_weatherData k v acc)))) \<le> 2046"
  using storeStruct_Main_finite [of "(Main (fst acc), snd acc)" v]
  by (auto simp: field_weatherData_def split: prod.splits)

lemma Unmarshal_weatherData_finite:
  "Exponent (Kelvin (Main (fst (Unmarshal field_weatherData body weatherData_zero)))) \<le> 2046"
proof (cases "parseJSON body")
  case None
  then show ?thesis
    by (simp add: Unmarshal_def weatherData_zero_def float64_zero_def)
next
  case (Some j)
  have "Exponent (Kelvin (Main (fst (storeStruct field_weatherData j (weatherData_zero, None)))))
          \<le> 2046"
    by (rule storeStruct_invariant
          [where P = "\<lambda>a. Exponent (Kelvin (Main (fst a))) \<le> 2046"])
       (auto intro: field_weatherData_finite simp: weatherData_zero_def float64_zero_def)
  with Some show ?thesis by (simp add: Unmarshal_def)
qed

subsection \<open>When the decoder saves no error\<close>

lemma fieldMatch_fold: "fieldMatch k name \<longleftrightarrow> foldName k = foldName name"
  by (auto simp: fieldMatch_def)

lemma foldName_name: "foldName ''name'' = ''NAME''"
  by (simp add: HasPrefix_def byte_def char_of_bits)

lemma foldName_main: "foldName ''main'' = ''MAIN''"
  by (simp add: HasPrefix_def byte_def char_of_bits)

lemma not_name_and_main:
  assumes "fieldMatch k ''name''"
  shows "\<not> fieldMatch k ''main''"
proof
  assume "fieldMatch k ''main''"
  then have m: "foldName k = ''MAIN''"
    unfolding fieldMatch_fold foldName_main .
  from assms have n: "foldName k = ''NAME''"
    unfolding fieldMatch_fold foldName_name .
  from m n have "''MAIN'' = ''NAME''" by (rule trans [OF sym])
  then show False by simp
qed

lemma saveError_not_None [simp]: "saveError e saved \<noteq> None"
  by (simp add: saveError_def split: option.splits)

lemma storeString_ok:
  "snd (storeString v acc) = None \<longleftrightarrow> snd acc = None \<and> fitsString v"
  by (cases v) (auto simp: storeString_def fitsString_def)

lemma storeFloat64_ok:
  "snd (storeFloat64 v acc) = None \<longleftrightarrow> snd acc = None \<and> fitsFloat64 v"
  by (cases v) (auto simp: storeFloat64_def fitsFloat64_def split: option.splits)

lemma foldl_ok:
  assumes "\<And>k x a. snd (field k x a) = None \<longleftrightarrow> snd a = None \<and> P k x"
  shows "snd (foldl (\<lambda>a (k, x). field k x a) acc ms) = None
           \<longleftrightarrow> snd acc = None \<and> list_all (\<lambda>(k, x). P k x) ms"
  by (induction ms arbitrary: acc) (auto simp: assms)

lemma list_all_membersFor:
  "list_all (\<lambda>(k, x). if fieldMatch k name then Q x else True) ms
     \<longleftrightarrow> list_all Q (membersFor name ms)"
  by (induction ms) (auto simp: membersFor_def)

lemma field_Main_ok:
  "snd (field_Main k v acc) = None
     \<longleftrightarrow> snd acc = None \<and> (if fieldMatch k ''temp'' then fitsFloat64 v else True)"
  using storeFloat64_ok [of v "(Kelvin (fst acc), snd acc)"]
  by (auto simp: field_Main_def split: prod.splits)

lemma storeStruct_Main_ok:
  "snd (storeStruct field_Main v acc) = None \<longleftrightarrow> snd acc = None \<and> fitsMain v"
proof (cases v)
  case (JObject ms)
  then show ?thesis
    using foldl_ok [of field_Main "\<lambda>k x. if fieldMatch k ''temp'' then fitsFloat64 x else True"
        acc ms, OF field_Main_ok]
    by (simp add: storeStruct_def fitsMain_def list_all_membersFor)
qed (auto simp: storeStruct_def fitsMain_def)

lemma field_weatherData_ok:
  "snd (field_weatherData k v acc) = None
     \<longleftrightarrow> snd acc = None
         \<and> (if fieldMatch k ''name'' then fitsString v else True)
         \<and> (if fieldMatch k ''main'' then fitsMain v else True)"
  using storeString_ok [of v "(Name (fst acc), snd acc)"]
    storeStruct_Main_ok [of v "(Main (fst acc), snd acc)"]
    not_name_and_main [of k]
  by (auto simp: field_weatherData_def split: prod.splits)

lemma list_all_both:
  "list_all (\<lambda>(k, x). P k x \<and> Q k x) ms
     \<longleftrightarrow> list_all (\<lambda>(k, x). P k x) ms \<and> list_all (\<lambda>(k, x). Q k x) ms"
  by (induction ms) auto

lemma storeStruct_weatherData_ok:
  "snd (storeStruct field_weatherData v acc) = None \<longleftrightarrow> snd acc = None \<and> fitsWeatherData v"
proof (cases v)
  case (JObject ms)
  have "snd (foldl (\<lambda>a (k, x). field_weatherData k x a) acc ms) = None
          \<longleftrightarrow> snd acc = None
              \<and> list_all (\<lambda>(k, x). (if fieldMatch k ''name'' then fitsString x else True)
                                    \<and> (if fieldMatch k ''main'' then fitsMain x else True)) ms"
    by (rule foldl_ok) (rule field_weatherData_ok)
  with JObject show ?thesis
    by (simp add: storeStruct_def fitsWeatherData_def list_all_both list_all_membersFor)
qed (auto simp: storeStruct_def fitsWeatherData_def)

lemma Unmarshal_weatherData_ok:
  "snd (Unmarshal field_weatherData body d) = None
     \<longleftrightarrow> (\<exists>j. parseJSON body = Some j \<and> fitsWeatherData j)"
  by (cases "parseJSON body") (simp_all add: Unmarshal_def storeStruct_weatherData_ok)

lemma foldl_unmatched:
  assumes "membersFor ''name'' ms = []" and "membersFor ''main'' ms = []"
  shows "foldl (\<lambda>a (k, x). field_weatherData k x a) acc ms = acc"
  using assms
  by (induction ms arbitrary: acc)
     (auto simp: membersFor_eval field_weatherData_def split: if_splits)

lemma Unmarshal_unmatched:
  assumes "parseJSON body = Some (JObject ms)"
    and "membersFor ''name'' ms = []" and "membersFor ''main'' ms = []"
  shows "Unmarshal field_weatherData body d = (d, None)"
  using assms by (simp add: Unmarshal_def storeStruct_def foldl_unmatched)

lemma foldl_apiKey:
  assumes "list_all isJString (membersFor ''OpenWeatherMapApiKey'' ms)" and "snd acc = None"
  shows "foldl (\<lambda>a (k, x). field_apiConfigData k x a) acc ms =
     (if membersFor ''OpenWeatherMapApiKey'' ms = [] then acc
      else (\<lparr>OpenWeatherMapApiKey = stringOf (last (membersFor ''OpenWeatherMapApiKey'' ms))\<rparr>,
            None))"
  using assms
proof (induction ms arbitrary: acc)
  case Nil
  then show ?case by (simp add: membersFor_eval)
next
  case (Cons m ms)
  obtain k v where m: "m = (k, v)" by (metis surj_pair)
  show ?case
  proof (cases "fieldMatch k ''OpenWeatherMapApiKey''")
    case False
    with Cons m show ?thesis by (simp add: membersFor_eval field_apiConfigData_def)
  next
    case True
    with Cons.prems m obtain s where v: "v = JString s"
      by (cases v) (auto simp: membersFor_eval)
    from True v Cons.prems(2)
    have f: "field_apiConfigData k v acc = (\<lparr>OpenWeatherMapApiKey = s\<rparr>, None)"
      by (simp add: field_apiConfigData_def storeString_def)
    from Cons.prems(1) True m have r: "list_all isJString (membersFor ''OpenWeatherMapApiKey'' ms)"
      by (simp add: membersFor_eval)
    from Cons.IH [OF r, of "(\<lparr>OpenWeatherMapApiKey = s\<rparr>, None)"] f m True v
    show ?thesis by (simp add: membersFor_eval)
  qed
qed

subsection \<open>What loadApiConfig and query return\<close>

lemma trace_loadApiConfig: "snd (loadApiConfig w filename) = [FileRead filename]"
  by (simp add: loadApiConfig_def split: sum.splits prod.splits option.splits)

lemma loadApiConfig_ReadFile_error:
  "ReadFile w filename = Inl err
    \<Longrightarrow> loadApiConfig w filename = ((apiConfigData_zero, Some err), [FileRead filename])"
  by (simp add: loadApiConfig_def)

lemma loadApiConfig_syntax_error:
  "ReadFile w filename = Inr bytes \<Longrightarrow> parseJSON bytes = None
    \<Longrightarrow> loadApiConfig w filename = ((apiConfigData_zero, Some SyntaxError), [FileRead filename])"
  by (simp add: loadApiConfig_def Unmarshal_def)

lemma query_success:
  assumes "fst (query w city) = (d, None)"
  shows "\<exists>cfg t0 resp body.
           loadApiConfig w ''.apiConfig'' = ((cfg, None), t0)
         \<and> Get w (requestURL city (OpenWeatherMapApiKey cfg)) = Inr resp
         \<and> Body resp = Inr body
         \<and> Unmarshal field_weatherData body weatherData_zero = (d, None)"
  using assms
  by (auto simp: query_def Let_def split: prod.splits option.splits sum.splits)

lemma query_finite:
  assumes "fst (query w city) = (d, None)"
  shows "Exponent (Kelvin (Main d)) \<noteq> 2047"
proof -
  from query_success [OF assms] obtain body
    where "Unmarshal field_weatherData body weatherData_zero = (d, None)" by blast
  with Unmarshal_weatherData_finite [of body] show ?thesis by simp
qed

lemma query_response:
  assumes "fst (loadApiConfig w ''.apiConfig'') = (cfg, None)"
    and "Get w (requestURL city (OpenWeatherMapApiKey cfg)) = Inr resp"
    and "Body resp = Inr body"
  shows "fst (query w city) =
     (case Unmarshal field_weatherData body weatherData_zero of
        (d, Some err) \<Rightarrow> (weatherData_zero, Some err)
      | (d, None) \<Rightarrow> (d, None))"
proof -
  from assms(1) trace_loadApiConfig [of w "''.apiConfig''"]
  have "loadApiConfig w ''.apiConfig'' = ((cfg, None), [FileRead ''.apiConfig''])"
    by (simp add: prod_eq_iff)
  with assms(2,3) show ?thesis
    by (simp add: query_def Let_def split: prod.splits option.splits)
qed

lemma requests_query_loaded:
  assumes "fst (loadApiConfig w ''.apiConfig'') = (cfg, None)"
  shows "requests (snd (query w city)) = [requestURL city (OpenWeatherMapApiKey cfg)]"
proof -
  from assms trace_loadApiConfig [of w "''.apiConfig''"]
  have "loadApiConfig w ''.apiConfig'' = ((cfg, None), [FileRead ''.apiConfig''])"
    by (simp add: prod_eq_iff)
  then show ?thesis
    by (simp add: query_def Let_def split: sum.splits prod.splits option.splits)
qed

lemma loadApiConfig_withStatus: "loadApiConfig (withStatus s w) filename = loadApiConfig w filename"
  by (simp add: loadApiConfig_def withStatus_def)

lemma query_withStatus: "query (withStatus s w) city = query w city"
proof -
  have g: "Get (withStatus s w) u =
      (case Get w u of Inl err \<Rightarrow> Inl err | Inr resp \<Rightarrow> Inr (resp\<lparr>StatusCode := s\<rparr>))" for u
    by (simp add: withStatus_def)
  show ?thesis
    by (simp add: query_def loadApiConfig_withStatus g Let_def
        split: prod.splits option.splits sum.splits)
qed

subsection \<open>What the handler writes\<close>

lemma http_Error_new:
  "http_Error msg code newResponseWriter =
     \<lparr>Header = [''Content-Type'' \<mapsto> ''text/plain; charset=utf-8'',
                 ''X-Content-Type-Options'' \<mapsto> ''nosniff''],
      Status = Some code, Written = msg @ [CHR 0x0A]\<rparr>"
  by (simp add: http_Error_def Write_def WriteHeader_def newResponseWriter_def)

lemma weatherHandler_query:
  assumes "SplitN path ''/'' 3 = [a, b, city]"
    and "query w city = ((d, err), t)"
  shows \<open>weatherHandler L w path =
     (case err of
        Some e \<Rightarrow>
          (\<lparr>Header = [''Content-Type'' \<mapsto> ''text/plain; charset=utf-8'',
                      ''X-Content-Type-Options'' \<mapsto> ''nosniff''],
            Status = Some 500, Written = Error L e @ [CHR 0x0A]\<rparr>, t)
      | None \<Rightarrow>
          (\<lparr>Header = [''Content-Type'' \<mapsto> ''application/json; charset=utf8''],
            Status = Some 200,
            Written = ''{"name":'' @ appendString L (Name d) @ '',"main":{"temp":''
                      @ appendFloat L (Kelvin (Main d)) @ ''}}'' @ [CHR 0x0A]\<rparr>, t))\<close>
proof (cases err)
  case None
  with assms(2) have "Exponent (Kelvin (Main d)) \<noteq> 2047"
    using query_finite [of w city d] by simp
  with None assms show ?thesis
    by (simp add: weatherHandler_def Encode_def Write_def WriteHeader_def newResponseWriter_def)
next
  case (Some e)
  with assms show ?thesis
    by (simp add: weatherHandler_def http_Error_new)
qed

subsection \<open>Examples\<close>

lemma Unmarshal_example_config:
  \<open>Unmarshal field_apiConfigData ''{"OpenWeatherMapApiKey":"k"}'' apiConfigData_zero
     = (\<lparr>OpenWeatherMapApiKey = ''k''\<rparr>, None)\<close>
  by (simp add: Unmarshal_def json_eval store_eval)

lemma loadApiConfig_example:
  \<open>loadApiConfig (exampleWorld (Inr ''{"OpenWeatherMapApiKey":"k"}'') st body) ''.apiConfig''
     = ((\<lparr>OpenWeatherMapApiKey = ''k''\<rparr>, None), [FileRead ''.apiConfig''])\<close>
  by (simp add: loadApiConfig_def exampleWorld_def Unmarshal_example_config)

lemma fst_loadApiConfig_example:
  \<open>fst (loadApiConfig (exampleWorld (Inr ''{"OpenWeatherMapApiKey":"k"}'') st body)
      ''.apiConfig'') = (\<lparr>OpenWeatherMapApiKey = ''k''\<rparr>, None)\<close>
  by (simp add: loadApiConfig_example)

lemma Get_example:
  "Get (exampleWorld cfg st body) u = Inr \<lparr>StatusCode = st, Body = Inr body\<rparr>"
  by (simp add: exampleWorld_def)

lemma query_example:
  assumes "Unmarshal field_weatherData body weatherData_zero = (d, err)"
  shows \<open>query (exampleWorld (Inr ''{"OpenWeatherMapApiKey":"k"}'') st body) city
     = ((case err of None \<Rightarrow> d | Some e \<Rightarrow> weatherData_zero, err),
        [FileRead ''.apiConfig'',
         Stdout (''Requesting URL: '' @ requestURL city ''k'' @ [CHR 0x0A]),
         HttpGet (requestURL city ''k''),
         Stdout (body @ [CHR 0x0A])])\<close>
proof -
  have g: \<open>Get (exampleWorld (Inr ''{"OpenWeatherMapApiKey":"k"}'') st body) u
             = Inr \<lparr>StatusCode = st, Body = Inr body\<rparr>\<close> for u
    by (simp add: exampleWorld_def)
  show ?thesis
    by (cases err) (simp_all add: query_def Let_def loadApiConfig_example g assms)
qed




lemma Unmarshal_example_London:
  \<open>Unmarshal field_weatherData ''{"name":"London","main":{"temp":21.5}}'' weatherData_zero
     = (\<lparr>Name = ''London'',
         Main = \<lparr>Kelvin = \<lparr>Sign = False, Exponent = 1027, Mantissa = 0x5800000000000\<rparr>\<rparr>\<rparr>,
        None)\<close>
  by (simp add: Unmarshal_def json_eval store_eval float_eval)

lemma Unmarshal_example_geocode:
  \<open>Unmarshal field_weatherData ''{"cod":"400","message":"Nothing to geocode"}''
     weatherData_zero = (weatherData_zero, None)\<close>
  by (simp add: Unmarshal_def json_eval store_eval)

lemma Unmarshal_example_array:
  "Unmarshal field_weatherData ''[]'' weatherData_zero
     = (weatherData_zero, Some (UnmarshalTypeError ''array''))"
  by (simp add: Unmarshal_def json_eval store_eval)

lemma parse_not_found:
  \<open>parseJSON ''{"cod":"404","message":"city not found"}''
     = Some (JObject [(''cod'', JString ''404''), (''message'', JString ''city not found'')])\<close>
  by (simp add: json_eval)

subsection \<open>UTF-8 sequences are written back as they were read\<close>

lemma char_of_byte: "char_of (byte c) = c"
  by (simp add: byte_def)

lemma byte_less_256: "byte c < 256"
  by (simp add: byte_def)

lemma EncodeRune_2:
  assumes "0xC2 \<le> b0" "b0 \<le> 0xDF" "0x80 \<le> b1" "b1 \<le> 0xBF"
  shows "EncodeRune ((b0 - 0xC0) * 64 + (b1 - 0x80)) = [char_of b0, char_of b1]"
proof -
  define a where "a = b0 - 0xC0"
  define b where "b = b1 - 0x80"
  have ab: "b0 = 0xC0 + a" "b1 = 0x80 + b" "2 \<le> a" "a < 32" "b < 64"
    using assms by (simp_all add: a_def b_def)
  have r: "128 \<le> a * 64 + b" "a * 64 + b < 2048" using ab by simp_all
  show ?thesis using ab r by (simp add: EncodeRune_def)
qed

lemma div_mod_base:
  fixes a b k :: nat
  assumes "b < k"
  shows "(a * k + b) div k = a" and "(a * k + b) mod k = b"
  using assms by simp_all

lemma EncodeRune_3:
  assumes "0xE0 \<le> b0" "b0 \<le> 0xEF"
    and "(if b0 = 0xE0 then 0xA0 else 0x80) \<le> b1"
    and "b1 \<le> (if b0 = 0xED then 0x9F else 0xBF)"
    and "0x80 \<le> b2" "b2 \<le> 0xBF"
  shows "EncodeRune ((b0 - 0xE0) * 4096 + (b1 - 0x80) * 64 + (b2 - 0x80))
         = [char_of b0, char_of b1, char_of b2]"
proof -
  define a where "a = b0 - 0xE0"
  define b where "b = b1 - 0x80"
  define c where "c = b2 - 0x80"
  define r where "r = a * 4096 + (b * 64 + c)"
  have ab: "0xE0 + a = b0" "0x80 + b = b1" "0x80 + c = b2"
    and lt: "a < 16" "b < 64" "c < 64"
    using assms by (simp_all add: a_def b_def c_def split: if_splits)
  have lo: "a = 0 \<Longrightarrow> 32 \<le> b" and hi: "a = 13 \<Longrightarrow> b < 32"
    using assms by (simp_all add: a_def b_def split: if_splits)
  have bc: "b * 64 + c < 4096" using lt by simp
  have r1: "\<not> r < 128" "\<not> r < 2048"
    using lo by (cases "a = 0"; simp add: r_def)+
  have r2: "r < 65536" "\<not> 1114111 < r" using lt by (simp_all add: r_def)
  have r3: "\<not> (55296 \<le> r \<and> r \<le> 57343)"
  proof (cases "a = 13")
    case True then show ?thesis using hi lt by (simp add: r_def)
  next
    case False
    then have "a \<le> 12 \<or> 14 \<le> a" by arith
    then show ?thesis using lt by (auto simp add: r_def)
  qed
  have d1: "r div 4096 = a" unfolding r_def using bc by (rule div_mod_base)
  have e: "r = (a * 64 + b) * 64 + c" by (simp add: r_def)
  have d2: "r div 64 = a * 64 + b" "r mod 64 = c"
    unfolding e using lt(3) by (rule div_mod_base)+
  have d3: "(a * 64 + b) mod 64 = b" using lt(2) by (rule div_mod_base)
  have r4: "(55296 \<le> r \<and> r \<le> 57343) = False" using r3 by simp
  have "EncodeRune r = [char_of b0, char_of b1, char_of b2]"
    using r1 r2 lt by (simp add: EncodeRune_def d1 d2 r4 ab)
  moreover have "(b0 - 0xE0) * 4096 + (b1 - 0x80) * 64 + (b2 - 0x80) = r"
    by (simp add: r_def a_def b_def c_def)
  ultimately show ?thesis by simp
qed

lemma EncodeRune_4:
  assumes "0xF0 \<le> b0" "b0 \<le> 0xF4"
    and "(if b0 = 0xF0 then 0x90 else 0x80) \<le> b1"
    and "b1 \<le> (if b0 = 0xF4 then 0x8F else 0xBF)"
    and "0x80 \<le> b2" "b2 \<le> 0xBF" "0x80 \<le> b3" "b3 \<le> 0xBF"
  shows "EncodeRune ((b0 - 0xF0) * 262144 + (b1 - 0x80) * 4096 + (b2 - 0x80) * 64
                     + (b3 - 0x80))
         = [char_of b0, char_of b1, char_of b2, char_of b3]"
proof -
  define a where "a = b0 - 0xF0"
  define b where "b = b1 - 0x80"
  define c where "c = b2 - 0x80"
  define d where "d = b3 - 0x80"
  define r where "r = a * 262144 + (b * 4096 + c * 64 + d)"
  have ab: "0xF0 + a = b0" "0x80 + b = b1" "0x80 + c = b2" "0x80 + d = b3"
    and lt: "a < 5" "b < 64" "c < 64" "d < 64"
    using assms by (simp_all add: a_def b_def c_def d_def split: if_splits)
  have lo: "a = 0 \<Longrightarrow> 16 \<le> b" and hi: "a = 4 \<Longrightarrow> b < 16"
    using assms by (simp_all add: a_def b_def split: if_splits)
  have bcd: "b * 4096 + c * 64 + d < 262144" using lt by simp
  have r1: "\<not> r < 128" "\<not> r < 2048" "\<not> r < 65536"
    using lo by (cases "a = 0"; simp add: r_def)+
  have r2: "\<not> 1114111 < r"
  proof (cases "a = 4")
    case True then show ?thesis using hi lt by (simp add: r_def)
  next
    case False
    then have "a \<le> 3" using lt by arith
    then show ?thesis using lt by (simp add: r_def)
  qed
  have r3: "\<not> (55296 \<le> r \<and> r \<le> 57343)" using r1 by simp
  have d1: "r div 262144 = a" unfolding r_def using bcd by (rule div_mod_base)
  have e1: "r = (a * 64 + b) * 4096 + (c * 64 + d)" by (simp add: r_def)
  have cd: "c * 64 + d < 4096" using lt by simp
  have d2: "r div 4096 = a * 64 + b" unfolding e1 using cd by (rule div_mod_base)
  have e2: "r = ((a * 64 + b) * 64 + c) * 64 + d" by (simp add: r_def)
  have d3: "r div 64 = (a * 64 + b) * 64 + c" "r mod 64 = d"
    unfolding e2 using lt(4) by (rule div_mod_base)+
  have d4: "(a * 64 + b) mod 64 = b" using lt(2) by (rule div_mod_base)
  have d5: "((a * 64 + b) * 64 + c) mod 64 = c" using lt(3) by (rule div_mod_base)
  have r4: "(55296 \<le> r \<and> r \<le> 57343) = False" using r3 by simp
  have d6: "(4096 * a + b * 64 + c) mod 64 = c" using d5 by (simp add: algebra_simps)
  have "EncodeRune r = [char_of b0, char_of b1, char_of b2, char_of b3]"
    using r1 r2 lt by (simp add: EncodeRune_def d1 d2 d3 d6 r4 ab)
  moreover have "(b0 - 0xF0) * 262144 + (b1 - 0x80) * 4096 + (b2 - 0x80) * 64
                   + (b3 - 0x80) = r"
    by (simp add: r_def a_def b_def c_def d_def)
  ultimately show ?thesis by simp
qed

lemma DecodeRune1_valid:
  assumes ne: "DecodeRune1 c s \<noteq> (RuneError, 1)" and hi: "\<not> byte c < 0x80"
  shows "EncodeRune (fst (DecodeRune1 c s)) = take (snd (DecodeRune1 c s)) (c # s)
         \<and> DecodeRune1 c (take (snd (DecodeRune1 c s) - 1) s @ t) = DecodeRune1 c s
         \<and> snd (DecodeRune1 c s) - 1 \<le> length s \<and> 1 \<le> snd (DecodeRune1 c s)"
proof -
  consider (two) "0xC2 \<le> byte c" "byte c \<le> 0xDF"
    | (three) "0xE0 \<le> byte c" "byte c \<le> 0xEF"
    | (four) "0xF0 \<le> byte c" "byte c \<le> 0xF4"
    using ne hi by (fastforce simp add: DecodeRune1_def Let_def split: if_splits)
  then show ?thesis
  proof cases
    case two
    then have r: "\<not> byte c < 0x80" by simp
    from ne two obtain c1 s' where s: "s = c1 # s'" and k: "isCont c1"
      by (cases s) (auto simp add: DecodeRune1_def Let_def split: if_splits)
    have d: "DecodeRune1 c (c1 # u) = ((byte c - 0xC0) * 64 + (byte c1 - 0x80), 2)" for u
      using two k r by (simp add: DecodeRune1_def)
    have e: "EncodeRune ((byte c - 0xC0) * 64 + (byte c1 - 0x80)) = [c, c1]"
      using EncodeRune_2 [of "byte c" "byte c1"] two k by (simp add: isCont_def char_of_byte)
    show ?thesis using d e s by simp
  next
    case three
    then have r: "\<not> byte c < 0x80" "\<not> (0xC2 \<le> byte c \<and> byte c \<le> 0xDF)" by simp_all
    from ne three obtain c1 c2 s' where s: "s = c1 # c2 # s'"
      and k: "(if byte c = 0xE0 then 0xA0 else 0x80) \<le> byte c1"
             "byte c1 \<le> (if byte c = 0xED then 0x9F else 0xBF)" "isCont c2"
      using r by (cases s; cases "tl s")
                 (auto simp add: DecodeRune1_def Let_def split: if_splits)
    have d: "DecodeRune1 c (c1 # c2 # u)
             = ((byte c - 0xE0) * 4096 + (byte c1 - 0x80) * 64 + (byte c2 - 0x80), 3)" for u
      using three k r by (simp add: DecodeRune1_def)
    have e: "EncodeRune ((byte c - 0xE0) * 4096 + (byte c1 - 0x80) * 64 + (byte c2 - 0x80))
             = [c, c1, c2]"
      using EncodeRune_3 [of "byte c" "byte c1" "byte c2"] three k
      by (simp add: isCont_def char_of_byte)
    show ?thesis using d e s by simp
  next
    case four
    then have r: "\<not> byte c < 0x80" "\<not> (0xC2 \<le> byte c \<and> byte c \<le> 0xDF)"
      "\<not> (0xE0 \<le> byte c \<and> byte c \<le> 0xEF)" by simp_all
    from ne four obtain c1 c2 c3 s' where s: "s = c1 # c2 # c3 # s'"
      and k: "(if byte c = 0xF0 then 0x90 else 0x80) \<le> byte c1"
             "byte c1 \<le> (if byte c = 0xF4 then 0x8F else 0xBF)" "isCont c2" "isCont c3"
      using r by (cases s; cases "tl s"; cases "tl (tl s)")
                 (auto simp add: DecodeRune1_def Let_def split: if_splits)
    have d: "DecodeRune1 c (c1 # c2 # c3 # u)
             = ((byte c - 0xF0) * 262144 + (byte c1 - 0x80) * 4096 + (byte c2 - 0x80) * 64
                + (byte c3 - 0x80), 4)" for u
      using four k r by (simp add: DecodeRune1_def)
    have e: "EncodeRune ((byte c - 0xF0) * 262144 + (byte c1 - 0x80) * 4096
                         + (byte c2 - 0x80) * 64 + (byte c3 - 0x80))
             = [c, c1, c2, c3]"
      using EncodeRune_4 [of "byte c" "byte c1" "byte c2" "byte c3"] four k
      by (simp add: isCont_def char_of_byte)
    show ?thesis using d e s by simp
  qed
qed

subsection \<open>The decoder reads an encoded string back\<close>

lemma hexVal_hexDigit: "n < 16 \<Longrightarrow> hexVal (hexDigit n) = Some n"
  by (auto simp add: hexVal_def hexDigit_def byte_def)

lemma EncodeRune_ascii: "byte c < 0x80 \<Longrightarrow> EncodeRune (byte c) = [c]"
  by (simp add: EncodeRune_def char_of_byte)

lemma getu4_escape:
  assumes "hexVal h1 = Some a" "hexVal h2 = Some b" "hexVal h3 = Some c" "hexVal h4 = Some d"
  shows "getu4 (CHR 0x5C # CHR ''u'' # h1 # h2 # h3 # h4 # r)
         = Some (((a * 16 + b) * 16 + c) * 16 + d)"
  by (simp add: getu4_def assms)

lemma hexVal_0: "hexVal (CHR ''0'') = Some 0"
  by (simp add: hexVal_def byte_def)

lemma unquote_plain:
  assumes "c \<noteq> CHR 0x22" "c \<noteq> CHR 0x5C" "\<not> byte c < 0x20" "byte c < 0x80"
  shows "unquote (c # r) = emit [c] 1 (unquote r)"
  using assms by simp

lemma unquote_simple:
  assumes "simpleEscape e = Some x" "e \<noteq> CHR ''u''"
  shows "unquote (CHR 0x5C # e # r) = emit [x] 2 (unquote r)"
  using assms by simp

lemma unquote_u:
  assumes "getu4 (CHR 0x5C # CHR ''u'' # h1 # h2 # h3 # h4 # r) = Some rr" "\<not> IsSurrogate rr"
  shows "unquote (CHR 0x5C # CHR ''u'' # h1 # h2 # h3 # h4 # r)
         = emit (EncodeRune rr) 6 (unquote r)"
  using assms by simp

lemma unquote_escapeByte:
  assumes "byte c < 0x80" "\<not> htmlSafe c"
  shows "unquote (escapeByte c @ r) = emit [c] (length (escapeByte c)) (unquote r)"
proof (cases "c = CHR 0x5C \<or> c = CHR 0x22 \<or> c = CHR 0x08 \<or> c = CHR 0x0C \<or> c = CHR 0x0A
               \<or> c = CHR 0x0D \<or> c = CHR 0x09")
  case True
  then consider "c = CHR 0x5C" | "c = CHR 0x22" | "c = CHR 0x08" | "c = CHR 0x0C"
    | "c = CHR 0x0A" | "c = CHR 0x0D" | "c = CHR 0x09" by blast
  then show ?thesis
    by cases (simp_all add: escapeByte_def unquote_simple simpleEscape_def numeral_2_eq_2
                       del: unquote.simps)
next
  case False
  have b: "byte c div 16 < 16" "byte c mod 16 < 16" using assms by simp_all
  have v: "((0 * 16 + 0) * 16 + byte c div 16) * 16 + byte c mod 16 = byte c" by simp
  have g: "getu4 (CHR 0x5C # CHR ''u'' # CHR ''0'' # CHR ''0''
                       # hexDigit (byte c div 16) # hexDigit (byte c mod 16) # r)
                = Some (byte c)"
    using getu4_escape [OF hexVal_0 hexVal_0 hexVal_hexDigit [OF b(1)] hexVal_hexDigit [OF b(2)],
                        of r]
    by (simp only: v)
  have s: "\<not> IsSurrogate (byte c)" using assms by (simp add: IsSurrogate_def)
  have e: "escapeByte c = [CHR 0x5C, CHR ''u'', CHR ''0'', CHR ''0'',
                           hexDigit (byte c div 16), hexDigit (byte c mod 16)]"
    using False by (simp add: escapeByte_def)
  have l: "length (escapeByte c) = 6" by (simp add: e)
  show ?thesis
    using unquote_u [OF g s] assms(1) by (simp add: l EncodeRune_ascii del: unquote.simps) (simp add: e)
qed

lemma unquote_ascii:
  assumes "byte c < 0x80"
  shows "unquote ((if htmlSafe c then [c] else escapeByte c) @ r)
         = emit [c] (length (if htmlSafe c then [c] else escapeByte c)) (unquote r)"
proof (cases "htmlSafe c")
  case True
  then have "unquote (c # r) = emit [c] 1 (unquote r)"
    by (intro unquote_plain) (auto simp add: htmlSafe_def)
  then show ?thesis using True by (simp del: unquote.simps)
next
  case False
  then show ?thesis using unquote_escapeByte [OF assms False] by (simp del: unquote.simps)
qed

lemma getu4_202x:
  assumes "rr = 0x2028 \<or> rr = 0x2029"
  shows "getu4 (CHR 0x5C # CHR ''u'' # CHR ''2'' # CHR ''0'' # CHR ''2''
                # hexDigit (rr mod 16) # r) = Some rr"
  using assms by (auto simp add: getu4_def hexVal_def hexDigit_def byte_def)

lemma unquote_appendStringBody:
  "ValidString s \<Longrightarrow>
   unquote (appendStringBody s @ CHR 0x22 # r) = Some (s, Suc (length (appendStringBody s)))"
proof (induction s rule: ValidString.induct)
  case 1
  show ?case by simp
next
  case (2 c s)
  let ?k = "snd (DecodeRune (c # s))"
  let ?rest = "drop (?k - 1) s"
  from "2.prems" have ne: "DecodeRune1 c s \<noteq> (RuneError, 1)" and v: "ValidString ?rest"
    by (simp_all add: DecodeRune_def)
  have ih: "unquote (appendStringBody ?rest @ CHR 0x22 # r)
            = Some (?rest, Suc (length (appendStringBody ?rest)))"
    using "2.IH" v by simp
  show ?case
  proof (cases "byte c < 0x80")
    case True
    then have k: "DecodeRune (c # s) = (byte c, 1)"
      by (simp add: DecodeRune_def DecodeRune1_def)
    have a: "appendStringBody (c # s)
             = (if htmlSafe c then [c] else escapeByte c) @ appendStringBody s"
      using True by simp
    show ?thesis
      using ih unquote_ascii [OF True, of "appendStringBody s @ CHR 0x22 # r"]
      by (simp add: a k emit_def del: unquote.simps appendStringBody.simps)
  next
    case False
    note d = DecodeRune1_valid [OF ne False]
    have k1: "1 \<le> ?k" and k2: "?k - 1 \<le> length s"
      using d [of "[]"] by (simp_all add: DecodeRune_def)
    have enc: "EncodeRune (fst (DecodeRune (c # s))) = take ?k (c # s)"
      using d [of "[]"] by (simp add: DecodeRune_def)
    have join: "take ?k (c # s) @ ?rest = c # s"
      using k1 by (cases ?k) simp_all
    have len: "length (take ?k (c # s)) = ?k"
      using k1 k2 by simp
    show ?thesis
    proof (cases "fst (DecodeRune (c # s)) = 0x2028 \<or> fst (DecodeRune (c # s)) = 0x2029")
      case True
      have a: "appendStringBody (c # s)
               = [CHR 0x5C, CHR ''u'', CHR ''2'', CHR ''0'', CHR ''2'',
                  hexDigit (fst (DecodeRune (c # s)) mod 16)] @ appendStringBody ?rest"
        using False True ne by (simp add: DecodeRune_def)
      have s: "\<not> IsSurrogate (fst (DecodeRune (c # s)))"
        using True by (auto simp add: IsSurrogate_def)
      have "unquote (appendStringBody (c # s) @ CHR 0x22 # r)
            = emit (take ?k (c # s)) 6 (unquote (appendStringBody ?rest @ CHR 0x22 # r))"
        using unquote_u [OF getu4_202x [OF True] s] by (simp only: a enc append.simps)
      then show ?thesis
        using join ih by (simp add: emit_def a del: unquote.simps appendStringBody.simps)
    next
      case other: False
      have a: "appendStringBody (c # s) = take ?k (c # s) @ appendStringBody ?rest"
        using False other ne by (simp add: DecodeRune_def)
      obtain t where t: "take ?k (c # s) = c # t" and tl: "t = take (?k - 1) s"
        using k1 by (cases ?k) simp_all
      have stable: "DecodeRune (c # t @ u) = DecodeRune (c # s)" for u
        using d [of u] by (simp add: DecodeRune_def tl)
      have c: "c \<noteq> CHR 0x22" "c \<noteq> CHR 0x5C" "\<not> byte c < 0x20"
        using False by (auto simp add: byte_def)
      have lt: "length t = ?k - 1" using k2 by (simp add: tl)
      have "unquote (c # t @ appendStringBody ?rest @ CHR 0x22 # r)
            = emit (take ?k (c # s)) ?k (unquote (appendStringBody ?rest @ CHR 0x22 # r))"
        using c False by (simp add: stable enc lt)
      then show ?thesis
        using join ih lt k1
        by (simp add: emit_def a t del: unquote.simps appendStringBody.simps)
    qed
  qed
qed

lemma unquote_encodeString:
  assumes "ValidString s"
  shows "\<exists>b. encodeString s = CHR 0x22 # b
             \<and> (\<forall>r. unquote (b @ r) = Some (s, length b))"
  using unquote_appendStringBody [OF assms] by (simp add: encodeString_def)

subsection \<open>Digit strings\<close>

lemma digit_char:
  assumes "d < 10"
  shows "isDigit (char_of (0x30 + d))" and "byte (char_of (0x30 + d)) - 0x30 = d"
    and "(char_of (0x30 + d) = CHR ''0'') = (d = 0)"
proof -
  have b: "byte (char_of (0x30 + d)) = 0x30 + d" using assms by (simp add: byte_def)
  show "isDigit (char_of (0x30 + d))" using assms by (simp add: isDigit_def b)
  show "byte (char_of (0x30 + d)) - 0x30 = d" by (simp add: b)
  show "(char_of (0x30 + d) = CHR ''0'') = (d = 0)"
  proof
    assume "char_of (0x30 + d) = CHR ''0''"
    then have "byte (char_of (0x30 + d)) = byte (CHR ''0'')" by simp
    then show "d = 0" using b by (simp add: byte_def)
  next
    assume "d = 0"
    then show "char_of (0x30 + d) = CHR ''0''" by (simp add: char_of_bits)
  qed
qed

lemma digitsOf_digits: "list_all isDigit (digitsOf n)"
proof (induction n rule: digitsOf.induct)
  case (1 n)
  have "n mod 10 < 10" by simp
  then show ?case
    using 1 by (subst digitsOf.simps) (simp add: digit_char)
qed

lemma digitsOf_not_Nil: "digitsOf n \<noteq> []"
  by (subst digitsOf.simps) simp

lemma digitsOf_hd: "0 < n \<Longrightarrow> hd (digitsOf n) \<noteq> CHR ''0''"
proof (induction n rule: digitsOf.induct)
  case (1 n)
  show ?case
  proof (cases "n < 10")
    case True
    then show ?thesis using "1.prems" by (subst digitsOf.simps) (simp add: digit_char)
  next
    case False
    then have "0 < n div 10" by simp
    then show ?thesis
      using 1 False digitsOf_not_Nil [of "n div 10"] by (subst digitsOf.simps) simp
  qed
qed

lemma digitsVal_snoc: "digitsVal (ds @ [c]) = 10 * digitsVal ds + (byte c - 0x30)"
  by (simp add: digitsVal_def)

lemma digitsVal_Nil: "digitsVal [] = 0"
  by (simp add: digitsVal_def)

lemma digitsVal_append: "digitsVal (a @ b) = digitsVal a * 10 ^ length b + digitsVal b"
proof (induction b rule: rev_induct)
  case Nil
  show ?case by (simp add: digitsVal_Nil)
next
  case (snoc c b)
  have "digitsVal (a @ b @ [c]) = 10 * digitsVal (a @ b) + (byte c - 0x30)"
    using digitsVal_snoc [of "a @ b" c] by simp
  then show ?case by (simp add: snoc digitsVal_snoc algebra_simps)
qed

lemma digitsVal_zeros: "digitsVal (replicate k (CHR ''0'')) = 0"
  by (induction k) (simp_all add: digitsVal_Nil digitsVal_snoc byte_def
                             flip: replicate_append_same)

lemma digitsVal_digitsOf: "digitsVal (digitsOf n) = n"
proof (induction n rule: digitsOf.induct)
  case (1 n)
  have m: "n mod 10 < 10" by simp
  show ?case
  proof (cases "n < 10")
    case True
    then show ?thesis
      using digitsVal_snoc [of "[]"] by (subst digitsOf.simps) (simp add: digit_char digitsVal_Nil)
  next
    case False
    then show ?thesis
      using 1 m by (subst digitsOf.simps) (simp add: digitsVal_snoc digit_char)
  qed
qed

lemma length_digitsOf_le: "n < 10 ^ k \<Longrightarrow> 0 < k \<Longrightarrow> length (digitsOf n) \<le> k"
proof (induction n arbitrary: k rule: digitsOf.induct)
  case (1 n)
  show ?case
  proof (cases "n < 10")
    case True
    then show ?thesis using "1.prems" by (subst digitsOf.simps) simp
  next
    case False
    obtain j where k: "k = Suc j" using "1.prems" by (cases k) simp_all
    have "0 < j" using False "1.prems" k by (cases j) simp_all
    moreover have "n div 10 < 10 ^ j" using "1.prems" k by (simp add: less_mult_imp_div_less)
    ultimately have "length (digitsOf (n div 10)) \<le> j" using "1.IH" False by simp
    then show ?thesis using False k by (subst digitsOf.simps) simp
  qed
qed

lemma pow10_le: "0 < n \<Longrightarrow> 10 ^ (length (digitsOf n) - 1) \<le> n"
proof (induction n rule: digitsOf.induct)
  case (1 n)
  show ?case
  proof (cases "n < 10")
    case True
    then show ?thesis using "1.prems" by (subst digitsOf.simps) simp
  next
    case False
    then have p: "0 < n div 10" by simp
    have l: "length (digitsOf n) - 1 = Suc (length (digitsOf (n div 10)) - 1)"
      using False digitsOf_not_Nil [of "n div 10"]
      by (subst digitsOf.simps) (simp add: Suc_diff_Suc)
    have "10 ^ (length (digitsOf (n div 10)) - 1) \<le> n div 10" using "1.IH" False p by simp
    then have "10 * 10 ^ (length (digitsOf (n div 10)) - 1) \<le> 10 * (n div 10)" by simp
    also have "\<dots> \<le> n" by simp
    finally show ?thesis using l by simp
  qed
qed

lemma exponentVal_snoc:
  "exponentVal (ds @ [c])
   = (if exponentVal ds < 10000 then 10 * exponentVal ds + (byte c - 0x30)
      else exponentVal ds)"
  by (simp add: exponentVal_def)

lemma exponentVal_digitsOf: "n < 100000 \<Longrightarrow> exponentVal (digitsOf n) = n"
proof (induction n rule: digitsOf.induct)
  case (1 n)
  have m: "n mod 10 < 10" by simp
  show ?case
  proof (cases "n < 10")
    case True
    then show ?thesis
      using exponentVal_snoc [of "[]"]
      by (subst digitsOf.simps) (simp add: digit_char exponentVal_def)
  next
    case False
    have "n div 10 < 10000" using "1.prems" by simp
    then show ?thesis
      using 1 m False by (subst digitsOf.simps) (simp add: exponentVal_snoc digit_char)
  qed
qed

lemma exponentVal_zero_digitsOf: "n < 100000 \<Longrightarrow> exponentVal (CHR ''0'' # digitsOf n) = n"
proof -
  assume n: "n < 100000"
  have "exponentVal (CHR ''0'' # ds) = exponentVal ds" for ds
    by (simp add: exponentVal_def byte_def)
  then show ?thesis using exponentVal_digitsOf [OF n] by simp
qed

lemma takeWhile_same:
  "takeWhile (\<lambda>c. c = a) ys = replicate (length (takeWhile (\<lambda>c. c = a) ys)) a"
  by (induction ys) simp_all

lemma trimZeros_split: "\<exists>k. ds = trimZeros ds @ replicate k (CHR ''0'')"
proof -
  let ?t = "takeWhile (\<lambda>c. c = CHR ''0'') (rev ds)"
  let ?d = "dropWhile (\<lambda>c. c = CHR ''0'') (rev ds)"
  have a: "?t @ ?d = rev ds" by simp
  have "ds = rev (?t @ ?d)" by (simp only: a rev_rev_ident)
  then have "ds = rev ?d @ rev ?t" by (simp only: rev_append)
  then have "ds = trimZeros ds @ rev ?t" by (simp only: trimZeros_def)
  moreover have "rev ?t = replicate (length ?t) (CHR ''0'')"
    using takeWhile_same [of "CHR ''0''" "rev ds"] by (metis rev_replicate)
  ultimately show ?thesis by metis
qed

lemma trimZeros_digits: "list_all isDigit ds \<Longrightarrow> list_all isDigit (trimZeros ds)"
proof -
  assume a: "list_all isDigit ds"
  obtain k where "ds = trimZeros ds @ replicate k (CHR ''0'')" using trimZeros_split by blast
  then have "list_all isDigit (trimZeros ds @ replicate k (CHR ''0''))" using a by simp
  then show ?thesis by (simp only: list_all_append)
qed

lemma trimZeros_hd:
  assumes "ds \<noteq> []" "hd ds \<noteq> CHR ''0''"
  shows "trimZeros ds \<noteq> []" and "hd (trimZeros ds) = hd ds"
proof -
  obtain k where k: "ds = trimZeros ds @ replicate k (CHR ''0'')"
    using trimZeros_split by blast
  show "trimZeros ds \<noteq> []"
  proof
    assume "trimZeros ds = []"
    then have "ds = replicate k (CHR ''0'')" using k by simp
    then show False using assms by (cases k) simp_all
  qed
  then have "hd (trimZeros ds @ replicate k (CHR ''0'')) = hd (trimZeros ds)" by simp
  then show "hd (trimZeros ds) = hd ds" using k by simp
qed

subsection \<open>Number literals\<close>

lemma takeWhile_digits:
  assumes "list_all isDigit ds" "r = [] \<or> \<not> isDigit (hd r)"
  shows "takeWhile isDigit (ds @ r) = ds" and "dropWhile isDigit (ds @ r) = r"
proof -
  have r: "takeWhile isDigit r = []" "dropWhile isDigit r = r"
    using assms(2) by (cases r; simp)+
  show "takeWhile isDigit (ds @ r) = ds" "dropWhile isDigit (ds @ r) = r"
    using assms(1) r by (induction ds) simp_all
qed

lemma not_digit:
  "\<not> isDigit (CHR ''.'')" "\<not> isDigit (CHR ''e'')" "\<not> isDigit (CHR ''}'')"
  "\<not> isDigit (CHR ''-'')" "\<not> isDigit (CHR ''+'')"
  by (simp_all add: isDigit_def byte_def)

lemma scanInteger_digits:
  assumes "ip = ''0'' \<or> (ip \<noteq> [] \<and> hd ip \<noteq> CHR ''0'' \<and> list_all isDigit ip)"
    and "r = [] \<or> \<not> isDigit (hd r)"
  shows "scanInteger (ip @ r) = Some ip"
proof (cases "ip = ''0''")
  case True
  then show ?thesis by (simp add: scanInteger_def)
next
  case False
  then obtain c t where ip: "ip = c # t" "c \<noteq> CHR ''0''" "isDigit c" "list_all isDigit t"
    using assms(1) by (cases ip) auto
  show ?thesis
    using ip takeWhile_digits(1) [OF ip(4) assms(2)] by (simp add: scanInteger_def)
qed

lemma scanFraction_digits:
  assumes "list_all isDigit fd" and "r = [] \<or> (\<not> isDigit (hd r) \<and> hd r \<noteq> CHR ''.'')"
  shows "scanFraction ((if fd = [] then [] else CHR ''.'' # fd) @ r)
         = Some (if fd = [] then [] else CHR ''.'' # fd)"
proof (cases "fd = []")
  case True
  then show ?thesis using assms(2) by (cases r) (simp_all add: scanFraction_def)
next
  case False
  have "takeWhile isDigit (fd @ r) = fd"
    using takeWhile_digits(1) [OF assms(1)] assms(2) by blast
  then show ?thesis using False by (simp add: scanFraction_def)
qed

lemma scanExponent_digits:
  assumes "list_all isDigit ed"
    and "r = [] \<or> (\<not> isDigit (hd r) \<and> hd r \<noteq> CHR ''e'' \<and> hd r \<noteq> CHR ''E'')"
  shows "scanExponent ((if ed = [] then []
                        else CHR ''e'' # (if eneg then CHR ''-'' else CHR ''+'') # ed) @ r)
         = Some (if ed = [] then [] else CHR ''e'' # (if eneg then CHR ''-'' else CHR ''+'') # ed)"
proof (cases "ed = []")
  case True
  then show ?thesis using assms(2) by (cases r) (simp_all add: scanExponent_def)
next
  case False
  have "takeWhile isDigit (ed @ r) = ed"
    using takeWhile_digits(1) [OF assms(1)] assms(2) by blast
  then show ?thesis using False by (simp add: scanExponent_def)
qed

lemma scanNumber_literal:
  assumes ip: "ip = ''0'' \<or> (ip \<noteq> [] \<and> hd ip \<noteq> CHR ''0'' \<and> list_all isDigit ip)"
    and fd: "list_all isDigit fd" and ed: "list_all isDigit ed"
  shows "scanNumber ((if neg then ''-'' else []) @ literal ip fd eneg ed @ CHR ''}'' # r)
         = Some ((if neg then ''-'' else []) @ literal ip fd eneg ed)"
proof -
  define sgn where "sgn = (if neg then ''-'' else [])"
  define F where "F = (if fd = [] then [] else CHR ''.'' # fd)"
  define E where "E = (if ed = [] then []
                       else CHR ''e'' # (if eneg then CHR ''-'' else CHR ''+'') # ed)"
  define R where "R = CHR ''}'' # r"
  have l: "literal ip fd eneg ed = ip @ F @ E" by (simp add: literal_def F_def E_def)
  have z: "isDigit (CHR ''0'')" by (simp add: isDigit_def byte_def)
  have ne: "ip \<noteq> []" using ip by auto
  have d: "isDigit (hd ip)" using ip z by (cases ip) auto
  have hE: "hd (E @ R) \<noteq> CHR ''.''" "\<not> isDigit (hd (E @ R))"
    by (simp_all add: E_def R_def not_digit)
  have hF: "\<not> isDigit (hd (F @ E @ R))"
    using hE by (simp add: F_def not_digit)
  have hR: "\<not> isDigit (hd R)" "hd R \<noteq> CHR ''e''" "hd R \<noteq> CHR ''E''"
    by (simp_all add: R_def not_digit)
  have 1: "scanInteger (ip @ F @ E @ R) = Some ip"
    using scanInteger_digits [OF ip, of "F @ E @ R"] hF by simp
  have 2: "scanFraction (F @ E @ R) = Some F"
    unfolding F_def using scanFraction_digits [OF fd, of "E @ R"] hE by simp
  have 3: "scanExponent (E @ R) = Some E"
    unfolding E_def using scanExponent_digits [OF ed, of R eneg] hR by simp
  have p: "HasPrefix (sgn @ ip @ F @ E @ R) ''-'' = neg"
    using ne d by (cases ip) (auto simp add: HasPrefix_def sgn_def not_digit)
  have s: "(if neg then ''-'' else []) = sgn" by (simp add: sgn_def)
  have len: "length sgn = (if neg then 1 else 0)" by (simp add: sgn_def)
  have "scanNumber (sgn @ ip @ F @ E @ R) = Some (sgn @ ip @ F @ E)"
    by (simp add: scanNumber_def p s 1 2 3)
  then show ?thesis by (simp add: l s R_def)
qed

lemma ParseFloat_literal:
  assumes ip: "ip \<noteq> []" "list_all isDigit ip"
    and fd: "list_all isDigit fd" and ed: "list_all isDigit ed"
  shows "ParseFloat ((if neg then ''-'' else []) @ literal ip fd eneg ed)
         = roundFloat64 neg
             (digitsVal (ip @ fd)
              * 10 ^ nat ((if eneg then - int (exponentVal ed) else int (exponentVal ed))
                          - int (length fd)))
             (10 ^ nat (- ((if eneg then - int (exponentVal ed) else int (exponentVal ed))
                           - int (length fd))))"
proof -
  define sgn where "sgn = (if neg then ''-'' else [])"
  define F where "F = (if fd = [] then [] else CHR ''.'' # fd)"
  define E where "E = (if ed = [] then []
                       else CHR ''e'' # (if eneg then CHR ''-'' else CHR ''+'') # ed)"
  have l: "(if neg then ''-'' else []) @ literal ip fd eneg ed = sgn @ ip @ F @ E"
    by (simp add: literal_def F_def E_def sgn_def)
  have d: "isDigit (hd ip)" using ip by (cases ip) auto
  have p: "HasPrefix (sgn @ ip @ F @ E) ''-'' = neg"
    using ip(1) d by (cases ip) (auto simp add: HasPrefix_def sgn_def not_digit)
  have body: "(if neg then drop 1 (sgn @ ip @ F @ E) else sgn @ ip @ F @ E) = ip @ F @ E"
    by (simp add: sgn_def)
  have hE: "E = [] \<or> \<not> isDigit (hd E)" by (simp add: E_def not_digit)
  have hF: "F @ E = [] \<or> \<not> isDigit (hd (F @ E))"
    using hE by (auto simp add: F_def not_digit)
  have tw: "takeWhile isDigit (ip @ F @ E) = ip" "dropWhile isDigit (ip @ F @ E) = F @ E"
    using takeWhile_digits [OF ip(2) hF] by simp_all
  have hp: "HasPrefix (F @ E) ''.'' = (fd \<noteq> [])"
    by (auto simp add: HasPrefix_def F_def E_def)
  have fp: "(if fd \<noteq> [] then takeWhile isDigit (drop 1 (F @ E)) else []) = fd"
    using takeWhile_digits(1) [OF fd hE] by (simp add: F_def)
  have r2: "(if fd \<noteq> [] then dropWhile isDigit (drop 1 (F @ E)) else F @ E) = E"
    using takeWhile_digits(2) [OF fd hE] by (simp add: F_def)
  have en: "HasPrefix (drop 1 E) ''-'' = (ed \<noteq> [] \<and> eneg)"
    by (simp add: E_def HasPrefix_def)
  have ex: "exponentVal (if (ed \<noteq> [] \<and> eneg) \<or> HasPrefix (drop 1 E) ''+'' then drop 2 E
                         else drop 1 E) = exponentVal ed"
    by (simp add: E_def HasPrefix_def exponentVal_def)
  have e0: "(if ed \<noteq> [] \<and> eneg then - int (exponentVal ed) else int (exponentVal ed))
            = (if eneg then - int (exponentVal ed) else int (exponentVal ed))"
    by (cases "ed = []") (simp_all add: exponentVal_def)
  have "ParseFloat (sgn @ ip @ F @ E)
        = roundFloat64 neg
            (digitsVal (ip @ fd)
             * 10 ^ nat ((if eneg then - int (exponentVal ed) else int (exponentVal ed))
                         - int (length fd)))
            (10 ^ nat (- ((if eneg then - int (exponentVal ed) else int (exponentVal ed))
                          - int (length fd))))"
    unfolding ParseFloat_def Let_def p body tw hp fp r2 en ex e0 ..
  then show ?thesis by (simp only: l)
qed

subsection \<open>The formats write number literals\<close>

lemma ratio_pow10: "real (m * 10 ^ nat z) / real (10 ^ nat (- z)) = real m * 10 powi z"
proof (cases "0 \<le> z")
  case True
  then show ?thesis by (simp add: power_int_nonneg_exp)
next
  case False
  then have "10 powi z = (1::real) / 10 ^ nat (- z)"
    using power_int_minus_divide [of "10::real" "- z"] by (simp add: power_int_nonneg_exp)
  then show ?thesis using False by simp
qed

lemma digits_take_drop:
  assumes "list_all isDigit ds"
  shows "list_all isDigit (take k ds)" and "list_all isDigit (drop k ds)"
  using assms by (simp_all add: list_all_iff) (meson in_set_takeD in_set_dropD)+

lemma zeros_digits: "list_all isDigit (replicate k (CHR ''0''))"
  by (simp add: list_all_iff isDigit_def byte_def)

lemma fmtF_scan:
  assumes "ds \<noteq> []" "hd ds \<noteq> CHR ''0''" "list_all isDigit ds"
  shows "scanNumber ((if neg then ''-'' else []) @ fmtF ds dp @ CHR ''}'' # r)
         = Some ((if neg then ''-'' else []) @ fmtF ds dp)"
  unfolding fmtF_def
proof (rule scanNumber_literal)
  show "(if 0 < dp then take (nat dp) ds @ replicate (nat dp - length ds) (CHR ''0'')
         else ''0'') = ''0''
        \<or> ((if 0 < dp then take (nat dp) ds @ replicate (nat dp - length ds) (CHR ''0'')
             else ''0'') \<noteq> []
           \<and> hd (if 0 < dp then take (nat dp) ds @ replicate (nat dp - length ds) (CHR ''0'')
                  else ''0'') \<noteq> CHR ''0''
           \<and> list_all isDigit
                (if 0 < dp then take (nat dp) ds @ replicate (nat dp - length ds) (CHR ''0'')
                 else ''0''))"
  proof (cases "0 < dp")
    case True
    then obtain j where j: "nat dp = Suc j" by (cases "nat dp") simp_all
    obtain c t where ds: "ds = c # t" using assms(1) by (cases ds) simp_all
    show ?thesis
      using True assms(2,3) digits_take_drop(1) [OF assms(3), of "nat dp"] zeros_digits
      by (simp add: j ds)
  next
    case False
    then show ?thesis by simp
  qed
  show "list_all isDigit (if dp < int (length ds)
                          then replicate (nat (- dp)) (CHR ''0'') @ drop (nat dp) ds else [])"
    using digits_take_drop(2) [OF assms(3)] zeros_digits by simp
  show "list_all isDigit []" by simp
qed

lemma fmtE_exponent_digits:
  "list_all isDigit (if dp - 1 < 0 then digitsOf (nat (1 - dp))
                     else (if dp - 1 < 10 then ''0'' else []) @ digitsOf (nat (dp - 1)))"
  using digitsOf_digits zeros_digits [of 1] by simp

lemma fmtE_scan:
  assumes "ds \<noteq> []" "hd ds \<noteq> CHR ''0''" "list_all isDigit ds"
  shows "scanNumber ((if neg then ''-'' else []) @ fmtE ds dp @ CHR ''}'' # r)
         = Some ((if neg then ''-'' else []) @ fmtE ds dp)"
  unfolding fmtE_def
proof (rule scanNumber_literal)
  obtain c t where ds: "ds = c # t" using assms(1) by (cases ds) simp_all
  show "take 1 ds = ''0'' \<or> (take 1 ds \<noteq> [] \<and> hd (take 1 ds) \<noteq> CHR ''0''
                               \<and> list_all isDigit (take 1 ds))"
    using assms(2,3) by (simp add: ds)
  show "list_all isDigit (drop 1 ds)" using digits_take_drop(2) [OF assms(3)] .
  show "list_all isDigit (if dp - 1 < 0 then digitsOf (nat (1 - dp))
                          else (if dp - 1 < 10 then ''0'' else []) @ digitsOf (nat (dp - 1)))"
    by (rule fmtE_exponent_digits)
qed

lemma trimmed_digits:
  assumes "0 < n"
  shows "trimZeros (digitsOf n) \<noteq> []" and "hd (trimZeros (digitsOf n)) \<noteq> CHR ''0''"
    and "list_all isDigit (trimZeros (digitsOf n))"
  using trimZeros_hd [OF digitsOf_not_Nil digitsOf_hd [OF assms]] digitsOf_hd [OF assms]
    trimZeros_digits [OF digitsOf_digits]
  by simp_all

lemma scanNumber_decimalText:
  assumes "0 < n"
  shows "scanNumber (decimalText neg useE n e @ CHR ''}'' # r) = Some (decimalText neg useE n e)"
  using fmtF_scan [OF trimmed_digits [OF assms]] fmtE_scan [OF trimmed_digits [OF assms]]
  by (simp add: decimalText_def)

lemma literal_hd: "ip \<noteq> [] \<Longrightarrow> hd (literal ip fd eneg ed) = hd ip"
  by (simp add: literal_def)

lemma decimalText_hd:
  assumes "0 < n"
  shows "\<exists>c t. decimalText neg useE n e = c # t \<and> (c = CHR ''-'' \<or> isDigit c)"
proof -
  have z: "isDigit (CHR ''0'')" by (simp add: isDigit_def byte_def)
  obtain c t where ds: "trimZeros (digitsOf n) = c # t" and c: "isDigit c"
    using trimmed_digits [OF assms] by (cases "trimZeros (digitsOf n)") simp_all
  have "\<exists>c' t'. fmtF (c # t) dp = c' # t' \<and> isDigit c'" for dp
    using c z by (cases "nat dp") (simp_all add: fmtF_def literal_def)
  moreover have "\<exists>c' t'. fmtE (c # t) dp = c' # t' \<and> isDigit c'" for dp
    using c by (simp add: fmtE_def literal_def)
  ultimately have "\<exists>c' t'. (if useE then fmtE (c # t) (int (length (digitsOf n)) + e)
                            else fmtF (c # t) (int (length (digitsOf n)) + e)) = c' # t'
                           \<and> isDigit c'"
    by simp
  then obtain c' t' where "(if useE then fmtE (c # t) (int (length (digitsOf n)) + e)
                            else fmtF (c # t) (int (length (digitsOf n)) + e)) = c' # t'"
    and "isDigit c'" by blast
  then show ?thesis by (cases neg; cases useE) (auto simp add: decimalText_def ds)
qed

lemma fmtF_value:
  assumes "ds \<noteq> []" "list_all isDigit ds"
  shows "\<exists>num den. ParseFloat ((if neg then ''-'' else []) @ fmtF ds dp)
                       = roundFloat64 neg num den
                   \<and> 0 < den
                   \<and> real num / real den
                       = real (digitsVal ds) * 10 powi (dp - int (length ds))"
proof -
  define ip where "ip = (if 0 < dp then take (nat dp) ds
                                          @ replicate (nat dp - length ds) (CHR ''0'')
                         else ''0'')"
  define fd where "fd = (if dp < int (length ds)
                         then replicate (nat (- dp)) (CHR ''0'') @ drop (nat dp) ds else [])"
  define e10 where "e10 = - int (length fd)"
  have ip: "ip \<noteq> []" "list_all isDigit ip"
    using assms digits_take_drop(1) [OF assms(2), of "nat dp"] zeros_digits zeros_digits [of 1]
    by (auto simp add: ip_def)
  have fd: "list_all isDigit fd"
    using digits_take_drop(2) [OF assms(2)] zeros_digits by (simp add: fd_def)
  have pf: "ParseFloat ((if neg then ''-'' else []) @ fmtF ds dp)
            = roundFloat64 neg (digitsVal (ip @ fd) * 10 ^ nat e10) (10 ^ nat (- e10))"
    using ParseFloat_literal [OF ip fd, of "[]" neg False]
    by (simp add: fmtF_def ip_def fd_def e10_def exponentVal_def)
  have pos: "0 < length ds" using assms(1) by simp
  have v: "real (digitsVal (ip @ fd)) * 10 powi e10
           = real (digitsVal ds) * 10 powi (dp - int (length ds))"
  proof -
    consider (a) "dp \<le> 0" | (b) "0 < dp" "dp < int (length ds)" | (c) "int (length ds) \<le> dp"
      by linarith
    then show ?thesis
    proof cases
      case a
      have "dp < int (length ds)" using a assms(1) by (cases ds) simp_all
      then have "ip @ fd = replicate (Suc (nat (- dp))) (CHR ''0'') @ ds"
        using a by (simp add: ip_def fd_def)
      then have "digitsVal (ip @ fd) = digitsVal ds"
        by (simp add: digitsVal_append digitsVal_zeros del: replicate.simps)
      moreover have "dp < int (length ds)" using a assms(1) by (cases ds) simp_all
      then have "e10 = dp - int (length ds)"
        using a by (simp add: e10_def fd_def)
      ultimately show ?thesis by simp
    next
      case b
      then have "ip @ fd = ds" by (simp add: ip_def fd_def)
      moreover have "e10 = dp - int (length ds)" using b by (simp add: e10_def fd_def)
      ultimately show ?thesis by simp
    next
      case c
      then have d: "0 < dp" using assms(1) by (cases ds) simp_all
      have i: "ip @ fd = ds @ replicate (nat dp - length ds) (CHR ''0'')"
        using c d by (simp add: ip_def fd_def)
      have "digitsVal (ip @ fd) = digitsVal ds * 10 ^ (nat dp - length ds)"
        by (simp add: i digitsVal_append digitsVal_zeros)
      moreover have "e10 = 0" using c by (simp add: e10_def fd_def)
      moreover have "(10::real) powi (dp - int (length ds)) = 10 ^ (nat dp - length ds)"
        using c by (simp add: power_int_nonneg_exp nat_diff_distrib)
      ultimately show ?thesis by simp
    qed
  qed
  have "real (digitsVal (ip @ fd) * 10 ^ nat e10) / real (10 ^ nat (- e10))
        = real (digitsVal ds) * 10 powi (dp - int (length ds))"
    using ratio_pow10 [of "digitsVal (ip @ fd)" e10] v by simp
  moreover have "0 < (10::nat) ^ nat (- e10)" by simp
  ultimately show ?thesis using pf by blast
qed

lemma fmtE_value:
  assumes "ds \<noteq> []" "list_all isDigit ds" "\<bar>dp - 1\<bar> < 100000"
  shows "\<exists>num den. ParseFloat ((if neg then ''-'' else []) @ fmtE ds dp)
                       = roundFloat64 neg num den
                   \<and> 0 < den
                   \<and> real num / real den
                       = real (digitsVal ds) * 10 powi (dp - int (length ds))"
proof -
  define ed where "ed = (if dp - 1 < 0 then digitsOf (nat (1 - dp))
                         else (if dp - 1 < 10 then ''0'' else []) @ digitsOf (nat (dp - 1)))"
  define e10 where "e10 = dp - int (length ds)"
  have ip: "take 1 ds \<noteq> []" "list_all isDigit (take 1 ds)"
    using assms(1) digits_take_drop(1) [OF assms(2), of 1] by simp_all
  have fd: "list_all isDigit (drop 1 ds)" using digits_take_drop(2) [OF assms(2)] .
  have ed: "list_all isDigit ed" unfolding ed_def by (rule fmtE_exponent_digits)
  have x: "(if dp - 1 < 0 then - int (exponentVal ed) else int (exponentVal ed)) = dp - 1"
  proof (cases "dp - 1 < 0")
    case True
    then have "nat (1 - dp) < 100000" using assms(3) by simp
    then show ?thesis using True exponentVal_digitsOf [of "nat (1 - dp)"] by (simp add: ed_def)
  next
    case False
    then have "nat (dp - 1) < 100000" using assms(3) by simp
    then show ?thesis
      using False exponentVal_digitsOf [of "nat (dp - 1)"]
        exponentVal_zero_digitsOf [of "nat (dp - 1)"]
      by (simp add: ed_def)
  qed
  have len: "int (length (drop 1 ds)) = int (length ds) - 1"
    using assms(1) by (cases ds) simp_all
  have f: "fmtE ds dp = literal (take 1 ds) (drop 1 ds) (dp - 1 < 0) ed"
    by (simp only: fmtE_def ed_def)
  have e: "dp - 1 - (int (length ds) - 1) = e10" by (simp add: e10_def)
  have pf: "ParseFloat ((if neg then ''-'' else []) @ fmtE ds dp)
            = roundFloat64 neg (digitsVal ds * 10 ^ nat e10) (10 ^ nat (- e10))"
    using ParseFloat_literal [OF ip fd ed, of neg "dp - 1 < 0"]
    by (simp only: f x len e append_take_drop_id)
  have "real (digitsVal ds * 10 ^ nat e10) / real (10 ^ nat (- e10))
        = real (digitsVal ds) * 10 powi (dp - int (length ds))"
    using ratio_pow10 [of "digitsVal ds" e10] by (simp add: e10_def)
  moreover have "0 < (10::nat) ^ nat (- e10)" by simp
  ultimately show ?thesis using pf by blast
qed

lemma ParseFloat_decimalText:
  assumes "0 < n" and "useE \<Longrightarrow> \<bar>int (length (digitsOf n)) + e - 1\<bar> < 100000"
  shows "\<exists>num den. ParseFloat (decimalText neg useE n e) = roundFloat64 neg num den
                   \<and> 0 < den \<and> real num / real den = real n * 10 powi e"
proof -
  define ds where "ds = trimZeros (digitsOf n)"
  define dp where "dp = int (length (digitsOf n)) + e"
  obtain k where k: "digitsOf n = ds @ replicate k (CHR ''0'')"
    using trimZeros_split [of "digitsOf n"] by (auto simp add: ds_def)
  have ds: "ds \<noteq> []" "list_all isDigit ds" using trimmed_digits [OF assms(1)] by (simp_all add: ds_def)
  have "digitsVal (digitsOf n) = digitsVal ds * 10 ^ k"
    by (simp add: k digitsVal_append digitsVal_zeros)
  then have n: "real n = real (digitsVal ds) * 10 ^ k" by (simp add: digitsVal_digitsOf)
  have "length (digitsOf n) = length ds + k" by (simp add: k)
  then have "dp - int (length ds) = int k + e" by (simp add: dp_def)
  then have "(10::real) powi (dp - int (length ds)) = 10 ^ k * 10 powi e"
    by (simp add: power_int_add)
  then have v: "real (digitsVal ds) * 10 powi (dp - int (length ds)) = real n * 10 powi e"
    using n by simp
  show ?thesis
  proof (cases useE)
    case True
    then have "\<bar>dp - 1\<bar> < 100000" using assms(2) by (simp add: dp_def)
    from fmtE_value [OF ds this, of neg] show ?thesis
      using True v by (simp add: decimalText_def ds_def dp_def)
  next
    case False
    from fmtF_value [OF ds, of neg dp] show ?thesis
      using False v by (simp add: decimalText_def ds_def dp_def)
  qed
qed

subsection \<open>ParseFloat reads the exact decimal of a float64 back\<close>

lemma bitlen_bounds:
  "0 < n \<Longrightarrow> 2 ^ (bitlen n - 1) \<le> n \<and> n < 2 ^ bitlen n"
proof (induction n rule: bitlen.induct)
  case (1 n)
  show ?case
  proof (cases "n div 2 = 0")
    case True
    then have "n = 1" using "1.prems" by presburger
    then show ?thesis by (simp add: bitlen.simps)
  next
    case False
    then have ih: "2 ^ (bitlen (n div 2) - 1) \<le> n div 2" "n div 2 < 2 ^ bitlen (n div 2)"
      using "1.IH" "1.prems" by simp_all
    have pos: "0 < bitlen (n div 2)" using False by (subst bitlen.simps) simp
    have b: "bitlen n = Suc (bitlen (n div 2))" using "1.prems" by (subst bitlen.simps) simp
    have "2 * 2 ^ (bitlen (n div 2) - 1) \<le> 2 * (n div 2)" using ih(1) by simp
    also have "\<dots> \<le> n" by simp
    finally have lo: "2 ^ bitlen (n div 2) \<le> n"
      using pos by (cases "bitlen (n div 2)") simp_all
    have "n < 2 * (n div 2) + 2" by presburger
    also have "\<dots> \<le> 2 * 2 ^ bitlen (n div 2)" using ih(2) by simp
    finally have hi: "n < 2 ^ Suc (bitlen (n div 2))" by simp
    show ?thesis using lo hi by (simp add: b)
  qed
qed

lemma pow2_cond:
  assumes "0 < den"
  shows "(den * 2 ^ nat e \<le> num * 2 ^ nat (- e)) = (2 powi e \<le> real num / real den)"
proof (cases "0 \<le> e")
  case True
  have "(2 powi e \<le> real num / real den) = (2 ^ nat e * real den \<le> real num)"
    using assms True by (simp add: power_int_nonneg_exp pos_le_divide_eq)
  also have "\<dots> = (real (den * 2 ^ nat e) \<le> real num)" by (simp add: mult.commute)
  also have "\<dots> = (den * 2 ^ nat e \<le> num)" by (simp only: of_nat_le_iff)
  finally show ?thesis using True by simp
next
  case False
  then have p: "2 powi e = (1::real) / 2 ^ nat (- e)"
    using power_int_minus_divide [of "2::real" "- e"] by (simp add: power_int_nonneg_exp)
  have "(2 powi e \<le> real num / real den) = (real den \<le> real num * 2 ^ nat (- e))"
    using assms by (simp add: p field_simps)
  also have "\<dots> = (real den \<le> real (num * 2 ^ nat (- e)))" by simp
  also have "\<dots> = (den \<le> num * 2 ^ nat (- e))" by (simp only: of_nat_le_iff)
  finally show ?thesis using False by simp
qed

lemma floorLog2_bounds:
  assumes "0 < num" "0 < den"
  shows "2 powi (floorLog2 num den) \<le> real num / real den"
    and "real num / real den < 2 powi (floorLog2 num den + 1)"
proof -
  define la where "la = bitlen num"
  define lb where "lb = bitlen den"
  define e0 where "e0 = int la - int lb"
  define v where "v = real num / real den"
  have bn: "2 ^ (la - 1) \<le> num" "num < 2 ^ la"
    using bitlen_bounds [OF assms(1)] by (simp_all add: la_def)
  have bd: "2 ^ (lb - 1) \<le> den" "den < 2 ^ lb"
    using bitlen_bounds [OF assms(2)] by (simp_all add: lb_def)
  have la: "0 < la" using assms(1) by (subst la_def, subst bitlen.simps) simp
  have lb: "0 < lb" using assms(2) by (subst lb_def, subst bitlen.simps) simp
  have rn: "(2::real) ^ (la - 1) \<le> real num" "real num < 2 ^ la"
    using bn by (metis of_nat_le_iff of_nat_numeral of_nat_power,
                 metis of_nat_less_iff of_nat_numeral of_nat_power)
  have rd: "(2::real) ^ (lb - 1) \<le> real den" "real den < 2 ^ lb"
    using bd by (metis of_nat_le_iff of_nat_numeral of_nat_power,
                 metis of_nat_less_iff of_nat_numeral of_nat_power)
  have dpos: "0 < real den" using assms(2) by simp
  have pa: "(2::real) ^ la = 2 * 2 ^ (la - 1)" using la by (cases la) simp_all
  have pb: "(2::real) ^ lb = 2 * 2 ^ (lb - 1)" using lb by (cases lb) simp_all
  have e: "(2::real) powi e0 = 2 ^ la / 2 ^ lb"
    by (simp add: e0_def power_int_diff)
  have up: "v < 2 powi (e0 + 1)"
  proof -
    have "real num * 2 ^ lb < 2 ^ la * (2 * real den)"
    proof -
      have "real num * 2 ^ lb < 2 ^ la * 2 ^ lb" using rn(2) by simp
      also have "\<dots> = 2 ^ la * (2 * 2 ^ (lb - 1))" using pb by simp
      also have "\<dots> \<le> 2 ^ la * (2 * real den)" using rd(1) by simp
      finally show ?thesis .
    qed
    then have "v < 2 ^ la / 2 ^ lb * 2"
      using dpos by (simp add: v_def field_simps)
    then show ?thesis by (simp add: power_int_add e)
  qed
  have low: "2 powi (e0 - 1) \<le> v"
  proof -
    have "2 ^ la * real den \<le> 2 * real num * 2 ^ lb"
    proof -
      have "2 ^ la * real den \<le> 2 ^ la * 2 ^ lb" using rd(2) by simp
      also have "\<dots> = (2 * 2 ^ (la - 1)) * 2 ^ lb" using pa by simp
      also have "\<dots> \<le> (2 * real num) * 2 ^ lb" using rn(1) by simp
      finally show ?thesis .
    qed
    then have "2 ^ la / 2 ^ lb / 2 \<le> v"
      using dpos by (simp add: v_def field_simps)
    then show ?thesis by (simp add: power_int_diff e)
  qed
  have c: "(den * 2 ^ nat e0 \<le> num * 2 ^ nat (- e0)) = (2 powi e0 \<le> v)"
    unfolding v_def by (rule pow2_cond [OF assms(2)])
  have f: "floorLog2 num den = (if 2 powi e0 \<le> v then e0 else e0 - 1)"
    by (simp add: floorLog2_def Let_def la_def [symmetric] lb_def [symmetric]
                  e0_def [symmetric] c)
  show "2 powi (floorLog2 num den) \<le> real num / real den"
    using low by (simp add: f v_def)
  show "real num / real den < 2 powi (floorLog2 num den + 1)"
    using up by (auto simp add: f v_def)
qed

lemma floorLog2_unique:
  assumes "0 < num" "0 < den"
    and "2 powi k \<le> real num / real den" "real num / real den < 2 powi (k + 1)"
  shows "floorLog2 num den = k"
proof (rule ccontr)
  let ?e = "floorLog2 num den"
  note b = floorLog2_bounds [OF assms(1,2)]
  assume "?e \<noteq> k"
  then consider "?e + 1 \<le> k" | "k + 1 \<le> ?e" by linarith
  then show False
  proof cases
    case 1
    then have "(2::real) powi (?e + 1) \<le> 2 powi k" by (intro power_int_increasing) simp_all
    then show False using b(2) assms(3) by linarith
  next
    case 2
    then have "(2::real) powi (k + 1) \<le> 2 powi ?e" by (intro power_int_increasing) simp_all
    then show False using b(1) assms(4) by linarith
  qed
qed

lemma floorLog2_below:
  assumes "0 < num" "0 < den" "real num / real den < 2 powi k"
  shows "floorLog2 num den < k"
proof (rule ccontr)
  assume "\<not> floorLog2 num den < k"
  then have "(2::real) powi k \<le> 2 powi (floorLog2 num den)"
    by (intro power_int_increasing) simp_all
  then show False using floorLog2_bounds(1) [OF assms(1,2)] assms(3) by linarith
qed

lemma roundHalfEven_exact: "0 < d \<Longrightarrow> roundHalfEven (m * d) d = m"
  by (simp add: roundHalfEven_def)

lemma roundFloat64_exact:
  assumes wf: "Exponent f < 2047" "Mantissa f < 2 ^ 52"
    and nz: "\<not> (Exponent f = 0 \<and> Mantissa f = 0)"
    and den: "0 < den"
    and val: "real num / real den = real (significand f) * 2 powi (binaryExponent f)"
  shows "roundFloat64 (Sign f) num den = Some f"
proof -
  define M where "M = significand f"
  define x where "x = binaryExponent f"
  define E where "E = x + 52"
  have Mpos: "0 < M" using nz by (auto simp add: M_def significand_def)
  have v: "real num / real den = real M * 2 powi x" using val by (simp add: M_def x_def)
  have vpos: "0 < real num / real den" using Mpos by (simp add: v)
  then have num: "0 < num" using den by (cases "num = 0") simp_all
  have sh: "(2::real) powi (x + k) = 2 powi k * 2 powi x" for k
    by (simp add: power_int_add mult.commute)
  have k1: "max (floorLog2 num den) (- 1022) = E"
  proof (cases "Exponent f = 0")
    case True
    then have M: "M < 2 ^ 52" and x: "x = - 1074"
      using wf by (simp_all add: M_def x_def significand_def binaryExponent_def)
    have "real M < 2 ^ 52" using M by (metis of_nat_less_iff of_nat_numeral of_nat_power)
    then have "real M * 2 powi x < 2 ^ 52 * 2 powi x" by simp
    also have "\<dots> = (2::real) powi (- 1022)" using sh [of 52] by (simp add: x)
    finally have "real num / real den < 2 powi (- 1022)" by (simp add: v)
    from floorLog2_below [OF num den this] show ?thesis by (simp add: E_def x)
  next
    case False
    then have M: "2 ^ 52 \<le> M" "M < 2 ^ 53" and x: "x = int (Exponent f) - 1075"
      using wf by (simp_all add: M_def x_def significand_def binaryExponent_def)
    have r: "(2::real) ^ 52 \<le> real M" "real M < 2 ^ 53"
      using M by (metis of_nat_le_iff of_nat_numeral of_nat_power,
                  metis of_nat_less_iff of_nat_numeral of_nat_power)
    have "(2::real) powi E = 2 ^ 52 * 2 powi x" using sh [of 52] by (simp add: E_def)
    also have "\<dots> \<le> real M * 2 powi x" using r(1) by simp
    finally have lo: "2 powi E \<le> real num / real den" by (simp add: v)
    have "real M * 2 powi x < 2 ^ 53 * 2 powi x" using r(2) by simp
    also have "\<dots> = (2::real) powi (E + 1)"
      using sh [of 53] by (simp add: E_def add.commute)
    finally have hi: "real num / real den < 2 powi (E + 1)" by (simp add: v)
    have "floorLog2 num den = E" by (rule floorLog2_unique [OF num den lo hi])
    moreover have "- 1022 \<le> E" using False by (simp add: E_def x)
    ultimately show ?thesis by simp
  qed
  have cross: "num * 2 ^ nat (- x) = M * (den * 2 ^ nat x)"
  proof -
    have n: "real num = real M * 2 powi x * real den"
      using v den by (simp add: field_simps)
    have "real (num * 2 ^ nat (- x)) = real (M * (den * 2 ^ nat x))"
    proof (cases "0 \<le> x")
      case True
      then show ?thesis using n by (simp add: power_int_nonneg_exp)
    next
      case False
      then have "2 powi x = (1::real) / 2 ^ nat (- x)"
        using power_int_minus_divide [of "2::real" "- x"] by (simp add: power_int_nonneg_exp)
      then show ?thesis using n False by simp
    qed
    then show ?thesis by (simp only: of_nat_eq_iff)
  qed
  have k2: "roundHalfEven (num * 2 ^ nat (52 - E)) (den * 2 ^ nat (E - 52)) = M"
  proof -
    have "roundHalfEven (M * (den * 2 ^ nat x)) (den * 2 ^ nat x) = M"
      using den by (intro roundHalfEven_exact) simp
    then show ?thesis by (simp add: E_def cross)
  qed
  have M53: "M < 2 ^ 53" using wf by (simp add: M_def significand_def)
  have E1023: "\<not> 1023 < E"
    using wf by (simp add: E_def x_def binaryExponent_def)
  have res: "roundFloat64 (Sign f) num den
             = (if M < 2 ^ 52 then Some \<lparr>Sign = Sign f, Exponent = 0, Mantissa = M\<rparr>
                else Some \<lparr>Sign = Sign f, Exponent = nat (E + 1023),
                           Mantissa = M - 2 ^ 52\<rparr>)"
    using num M53 E1023 by (simp add: roundFloat64_def Let_def k1 k2)
  show ?thesis
  proof (cases "Exponent f = 0")
    case True
    then have "M < 2 ^ 52" "M = Mantissa f" using wf by (simp_all add: M_def significand_def)
    then show ?thesis using True by (simp add: res)
  next
    case False
    then have "\<not> M < 2 ^ 52" "M - 2 ^ 52 = Mantissa f" "nat (E + 1023) = Exponent f"
      by (simp_all add: M_def significand_def E_def x_def binaryExponent_def)
    then show ?thesis by (simp add: res)
  qed
qed

subsection \<open>The text of a finite float64 is read back as the same float64\<close>

lemma exactDecimal_pos:
  assumes "\<not> (Exponent f = 0 \<and> Mantissa f = 0)"
  shows "0 < fst (exactDecimal f)"
  using assms by (auto simp add: exactDecimal_def significand_def)

lemma exactDecimal_value:
  "real (fst (exactDecimal f)) * 10 powi (snd (exactDecimal f))
   = real (significand f) * 2 powi (binaryExponent f)"
proof (cases "0 \<le> binaryExponent f")
  case True
  then show ?thesis by (simp add: exactDecimal_def power_int_nonneg_exp)
next
  case False
  define k where "k = nat (- binaryExponent f)"
  have x: "binaryExponent f = - int k" using False by (simp add: k_def)
  have t: "(10::real) ^ k = 2 ^ k * 5 ^ k" by (simp flip: power_mult_distrib)
  have "(5::real) ^ k * 10 powi (- int k) = 2 powi (- int k)"
    by (simp add: power_int_minus t field_simps)
  then have "real (significand f) * (5 ^ k * 10 powi (- int k))
             = real (significand f) * 2 powi (- int k)" by simp
  then show ?thesis using False by (simp add: exactDecimal_def x mult.assoc)
qed

lemma exactDecimal_less:
  assumes "Exponent f < 2047" "Mantissa f < 2 ^ 52"
  shows "fst (exactDecimal f) < 10 ^ (16 + nat \<bar>binaryExponent f\<bar>)"
proof -
  define j where "j = nat \<bar>binaryExponent f\<bar>"
  have M: "significand f < 10 ^ 16" using assms by (simp add: significand_def)
  have p2: "(2::nat) ^ j \<le> 10 ^ j" by (rule power_mono) simp_all
  have p5: "(5::nat) ^ j \<le> 10 ^ j" by (rule power_mono) simp_all
  have "fst (exactDecimal f) = significand f * (if 0 \<le> binaryExponent f then 2 ^ j else 5 ^ j)"
    by (simp add: exactDecimal_def j_def)
  also have "\<dots> \<le> significand f * 10 ^ j" using p2 p5 by simp
  also have "\<dots> < 10 ^ 16 * 10 ^ j" using M by simp
  finally show ?thesis by (simp add: power_add j_def)
qed

lemma exactDecimal_reads_back:
  assumes wf: "Exponent f < 2047" "Mantissa f < 2 ^ 52"
    and nz: "\<not> (Exponent f = 0 \<and> Mantissa f = 0)"
  shows "ParseFloat (decimalText (Sign f) useE (fst (exactDecimal f)) (snd (exactDecimal f)))
         = Some f"
proof -
  define D where "D = fst (exactDecimal f)"
  define q where "q = snd (exactDecimal f)"
  have pos: "0 < D" using exactDecimal_pos [OF nz] by (simp add: D_def)
  have x: "- 1074 \<le> binaryExponent f" "binaryExponent f \<le> 971"
    using wf by (simp_all add: binaryExponent_def)
  have qb: "- 1074 \<le> q" "q \<le> 0" using x by (simp_all add: q_def exactDecimal_def)
  have "length (digitsOf D) \<le> 16 + nat \<bar>binaryExponent f\<bar>"
    using length_digitsOf_le [OF exactDecimal_less [OF wf]] by (simp add: D_def)
  then have lb: "int (length (digitsOf D)) \<le> 1090" using x by linarith
  have "0 < length (digitsOf D)" using digitsOf_not_Nil [of D] by simp
  then have "\<bar>int (length (digitsOf D)) + q - 1\<bar> < 100000" using lb qb by linarith
  from ParseFloat_decimalText [OF pos this, where neg = "Sign f"]
  obtain num den where p: "ParseFloat (decimalText (Sign f) useE D q)
                           = roundFloat64 (Sign f) num den"
    and den: "0 < den" and v: "real num / real den = real D * 10 powi q"
    by blast
  have "real num / real den = real (significand f) * 2 powi (binaryExponent f)"
    using v exactDecimal_value [of f] by (simp add: D_def q_def)
  from roundFloat64_exact [OF wf nz den this] show ?thesis using p by (simp add: D_def q_def)
qed

lemma shortest_ok:
  "ok D q \<Longrightarrow> ok (fst (shortest ok D q p)) (snd (shortest ok D q p))"
  by (induction p) (simp_all add: Let_def)

lemma shortest_pos:
  "10 ^ p \<le> D \<Longrightarrow> 0 < D \<Longrightarrow> 0 < fst (shortest ok D q p)"
proof (induction p)
  case 0
  then show ?case by simp
next
  case (Suc p)
  have "10 ^ Suc p div 10 ^ Suc p \<le> D div 10 ^ Suc p"
    using Suc.prems(1) by (rule div_le_mono)
  then have lo: "0 < D div 10 ^ Suc p" by simp
  have "(10::nat) ^ p \<le> 10 ^ Suc p" by simp
  then have "10 ^ p \<le> D" using Suc.prems(1) by linarith
  then have "0 < fst (shortest ok D q p)" using Suc by simp
  then show ?case using lo by (simp add: Let_def)
qed

lemma encodeFloat_zero:
  assumes "Exponent f = 0 \<and> Mantissa f = 0"
  shows "ParseFloat (encodeFloat f) = Some f"
    and "scanNumber (encodeFloat f @ CHR ''}'' # r) = Some (encodeFloat f)"
    and "\<exists>c t. encodeFloat f = c # t \<and> (c = CHR ''-'' \<or> isDigit c)"
proof -
  have e: "encodeFloat f = (if Sign f then ''-0'' else ''0'')"
    using assms by (simp add: encodeFloat_def)
  have f: "f = \<lparr>Sign = Sign f, Exponent = 0, Mantissa = 0\<rparr>" using assms by simp
  have "ParseFloat (if Sign f then ''-0'' else ''0'')
        = Some \<lparr>Sign = Sign f, Exponent = 0, Mantissa = 0\<rparr>"
    by (simp add: ParseFloat_def roundFloat64_def digitsVal_def exponentVal_def HasPrefix_def
                  isDigit_def byte_def)
  then show "ParseFloat (encodeFloat f) = Some f" using f by (simp add: e)
  show "scanNumber (encodeFloat f @ CHR ''}'' # r) = Some (encodeFloat f)"
    by (simp add: e scanNumber_def scanInteger_def scanFraction_def scanExponent_def
                  HasPrefix_def isDigit_def byte_def)
  show "\<exists>c t. encodeFloat f = c # t \<and> (c = CHR ''-'' \<or> isDigit c)"
    by (simp add: e isDigit_def byte_def)
qed

lemma encodeFloat_reads_back:
  assumes wf: "Exponent f < 2047" "Mantissa f < 2 ^ 52"
  shows "ParseFloat (encodeFloat f) = Some f"
    and "scanNumber (encodeFloat f @ CHR ''}'' # r) = Some (encodeFloat f)"
    and "\<exists>c t. encodeFloat f = c # t \<and> (c = CHR ''-'' \<or> isDigit c)"
proof -
  show "ParseFloat (encodeFloat f) = Some f"
    and "scanNumber (encodeFloat f @ CHR ''}'' # r) = Some (encodeFloat f)"
    and "\<exists>c t. encodeFloat f = c # t \<and> (c = CHR ''-'' \<or> isDigit c)"
  proof (atomize (full), cases "Exponent f = 0 \<and> Mantissa f = 0")
    case True
    from encodeFloat_zero(1) [OF True] encodeFloat_zero(2) [OF True, of r]
      encodeFloat_zero(3) [OF True]
    show "ParseFloat (encodeFloat f) = Some f
          \<and> scanNumber (encodeFloat f @ CHR ''}'' # r) = Some (encodeFloat f)
          \<and> (\<exists>c t. encodeFloat f = c # t \<and> (c = CHR ''-'' \<or> isDigit c))"
      by blast
  next
    case False
    define useE where "useE = (lessAbs f float64_1e_6 \<or> \<not> lessAbs f float64_1e21)"
    define ok where "ok = (\<lambda>n e. ParseFloat (decimalText (Sign f) useE n e) = Some f)"
    define D where "D = fst (exactDecimal f)"
    define q where "q = snd (exactDecimal f)"
    define r' where "r' = shortest ok D q (length (digitsOf D) - 1)"
    have c: "(Exponent f = 0 \<and> Mantissa f = 0) = False" using False by simp
    have e: "encodeFloat f = decimalText (Sign f) useE (fst r') (snd r')"
      by (simp only: encodeFloat_def Let_def c if_False useE_def ok_def D_def q_def r'_def)
    have pos: "0 < D" using exactDecimal_pos [OF False] by (simp add: D_def)
    have "ok D q"
      using exactDecimal_reads_back [OF wf False, where useE = useE]
      by (simp add: ok_def D_def q_def)
    then have "ok (fst r') (snd r')" unfolding r'_def by (rule shortest_ok)
    then have 1: "ParseFloat (encodeFloat f) = Some f" by (simp add: ok_def e)
    have n: "0 < fst r'"
      unfolding r'_def using pow10_le [OF pos] pos by (rule shortest_pos)
    have 2: "scanNumber (encodeFloat f @ CHR ''}'' # r) = Some (encodeFloat f)"
      using scanNumber_decimalText [OF n] by (simp add: e)
    have 3: "\<exists>c t. encodeFloat f = c # t \<and> (c = CHR ''-'' \<or> isDigit c)"
      using decimalText_hd [OF n] by (simp add: e)
    show "ParseFloat (encodeFloat f) = Some f
          \<and> scanNumber (encodeFloat f @ CHR ''}'' # r) = Some (encodeFloat f)
          \<and> (\<exists>c t. encodeFloat f = c # t \<and> (c = CHR ''-'' \<or> isDigit c))"
      using 1 2 3 by blast
  qed
qed

subsection \<open>Decoding what the encoder wrote\<close>

lemma lex_number:
  assumes "scanNumber (num @ r) = Some num" "num = c # t" "c = CHR ''-'' \<or> isDigit c"
  shows "lex (num @ r) = cons (TNumber num) (lex r)"
proof -
  have c: "\<not> isSpace c" "c \<noteq> CHR ''{''" "c \<noteq> CHR ''}''" "c \<noteq> CHR ''[''" "c \<noteq> CHR '']''"
    "c \<noteq> CHR '':''" "c \<noteq> CHR '',''" "c \<noteq> CHR 0x22"
    using assms(3) by (auto simp add: isSpace_def isDigit_def byte_def)
  have "lex (c # t @ r) = cons (TNumber num) (lex (drop (length num - 1) (t @ r)))"
    using c assms by simp
  then show ?thesis using assms(2) by simp
qed

lemma lex_encoded:
  assumes s: "\<And>r. unquote (b @ r) = Some (name, length b)"
    and n: "\<And>r. scanNumber (num @ CHR ''}'' # r) = Some num"
    and h: "num = c # t" "c = CHR ''-'' \<or> isDigit c"
  shows \<open>lex (''{"name":'' @ CHR 0x22 # b @ '',"main":{"temp":'' @ num @ ''}}'' @ [CHR 0x0A])
         = Some [TLBrace, TString ''name'', TColon, TString name, TComma, TString ''main'',
                 TColon, TLBrace, TString ''temp'', TColon, TNumber num, TRBrace, TRBrace]\<close>
proof -
  have 3: "lex (num @ CHR ''}'' # CHR ''}'' # [CHR 0x0A])
           = Some [TNumber num, TRBrace, TRBrace]"
    using lex_number [OF n h] by (simp add: cons_def isSpace_def)
  have 2: \<open>lex ('',"main":{"temp":'' @ num @ CHR ''}'' # CHR ''}'' # [CHR 0x0A])
           = Some [TComma, TString ''main'', TColon, TLBrace, TString ''temp'', TColon,
                   TNumber num, TRBrace, TRBrace]\<close>
    using 3 by (simp add: cons_def isSpace_def byte_def emit_def)
  have 1: \<open>lex (CHR 0x22 # b @ '',"main":{"temp":'' @ num @ CHR ''}'' # CHR ''}'' # [CHR 0x0A])
           = Some [TString name, TComma, TString ''main'', TColon, TLBrace, TString ''temp'',
                   TColon, TNumber num, TRBrace, TRBrace]\<close>
    using 2 s by (simp add: cons_def isSpace_def del: unquote.simps)
  show ?thesis
    using 1 by (simp add: cons_def isSpace_def byte_def emit_def)
qed

lemma parseJSON_encoded:
  assumes s: "\<And>r. unquote (b @ r) = Some (name, length b)"
    and n: "\<And>r. scanNumber (num @ CHR ''}'' # r) = Some num"
    and h: "num = c # t" "c = CHR ''-'' \<or> isDigit c"
  shows \<open>parseJSON (''{"name":'' @ CHR 0x22 # b @ '',"main":{"temp":'' @ num @ ''}}''
                    @ [CHR 0x0A])
         = Some (JObject [(''name'', JString name),
                          (''main'', JObject [(''temp'', JNumber num)])])\<close>
  unfolding parseJSON_def lex_encoded [OF assms]
  by (simp add: step_def beginValue_def beginKey_def pushParseState_def endValue_def
                maxNestingDepth_def)

lemma store_encoded:
  assumes "ParseFloat num = Some f"
  shows "storeStruct field_weatherData
           (JObject [(''name'', JString name), (''main'', JObject [(''temp'', JNumber num)])])
           (weatherData_zero, None)
         = (\<lparr>Name = name, Main = \<lparr>Kelvin = f\<rparr>\<rparr>, None)"
  using assms
  by (simp add: storeStruct_def field_weatherData_def field_Main_def storeString_def
                storeFloat64_def fieldMatch_def weatherData_zero_def float64_zero_def
                HasPrefix_def byte_def char_of_bits)

lemma Unmarshal_Encode:
  assumes "ValidString (Name d)" "isFinite (Kelvin (Main d))"
  shows "\<exists>b. Encode (jsonLibrary msg) d = Some b
             \<and> Unmarshal field_weatherData b weatherData_zero = (d, None)"
proof -
  define f where "f = Kelvin (Main d)"
  define b where "b = appendStringBody (Name d) @ [CHR 0x22]"
  have wf: "Exponent f < 2047" "Mantissa f < 2 ^ 52"
    using assms(2) by (simp_all add: isFinite_def f_def)
  have s: "unquote (b @ r) = Some (Name d, length b)" for r
    using unquote_appendStringBody [OF assms(1), of r] by (simp add: b_def)
  have n: "scanNumber (encodeFloat f @ CHR ''}'' # r) = Some (encodeFloat f)" for r
    by (rule encodeFloat_reads_back(2) [OF wf])
  obtain c t where h: "encodeFloat f = c # t" "c = CHR ''-'' \<or> isDigit c"
    using encodeFloat_reads_back(3) [OF wf] by blast
  have e: \<open>Encode (jsonLibrary msg) d
           = Some (''{"name":'' @ CHR 0x22 # b @ '',"main":{"temp":'' @ encodeFloat f @ ''}}''
                   @ [CHR 0x0A])\<close>
    using wf(1) by (simp add: Encode_def jsonLibrary_def encodeString_def b_def f_def)
  have d: "\<lparr>Name = Name d, Main = \<lparr>Kelvin = f\<rparr>\<rparr> = d" by (simp add: f_def)
  have \<open>Unmarshal field_weatherData
          (''{"name":'' @ CHR 0x22 # b @ '',"main":{"temp":'' @ encodeFloat f @ ''}}''
           @ [CHR 0x0A]) weatherData_zero = (d, None)\<close>
    unfolding Unmarshal_def parseJSON_encoded [OF s n h]
    using store_encoded [OF encodeFloat_reads_back(1) [OF wf], of "Name d"]
    by (simp add: d)
  then show ?thesis using e by simp
qed

section \<open>The claims of the specification\<close>

text \<open>
  C1. The claim is that a request for the path \<open>/weather/\<close> is answered with status 400
  and without a call of \<open>query\<close>. The code does otherwise: the path splits into three
  parts, the last one empty, so the guard \<open>len(parts) < 3\<close> does not fire; the handler
  calls \<open>query\<close> with the empty city, and the status it sends is never 400.
\<close>

theorem weather_slash_calls_query:
  "SplitN ''/weather/'' ''/'' 3 = ['''', ''weather'', '''']
   \<and> snd (weatherHandler L w ''/weather/'') = snd (query w '''')
   \<and> sentStatus (fst (weatherHandler L w ''/weather/'')) \<noteq> 400"
proof -
  have s: "SplitN ''/weather/'' ''/'' 3 = ['''', ''weather'', '''']"
    using SplitN_weather [of "''''"] by simp
  obtain d err t where q: "query w '''' = ((d, err), t)"
    by (metis surj_pair)
  from weatherHandler_query [OF s q, of L] q s show ?thesis
    by (cases err) (simp_all add: sentStatus_def)
qed

theorem weather_slash_calls_query_example:
  \<open>\<forall>L. sentStatus (fst (weatherHandler L
            (exampleWorld (Inr ''{"OpenWeatherMapApiKey":"k"}'') 400
               ''{"cod":"400","message":"Nothing to geocode"}'') ''/weather/'')) = 200
      \<and> requests (snd (weatherHandler L
            (exampleWorld (Inr ''{"OpenWeatherMapApiKey":"k"}'') 400
               ''{"cod":"400","message":"Nothing to geocode"}'') ''/weather/''))
        = [''https://api.openweathermap.org/data/2.5/weather?q=&appid=k&units=metric'']\<close>
proof (intro allI)
  fix L
  have s: "SplitN ''/weather/'' ''/'' 3 = ['''', ''weather'', '''']"
    using SplitN_weather [of "''''"] by simp
  show \<open>sentStatus (fst (weatherHandler L
            (exampleWorld (Inr ''{"OpenWeatherMapApiKey":"k"}'') 400
               ''{"cod":"400","message":"Nothing to geocode"}'') ''/weather/'')) = 200
      \<and> requests (snd (weatherHandler L
            (exampleWorld (Inr ''{"OpenWeatherMapApiKey":"k"}'') 400
               ''{"cod":"400","message":"Nothing to geocode"}'') ''/weather/''))
        = [''https://api.openweathermap.org/data/2.5/weather?q=&appid=k&units=metric'']\<close>
    using weather_slash_calls_query [of L
        \<open>exampleWorld (Inr ''{"OpenWeatherMapApiKey":"k"}'') 400
           ''{"cod":"400","message":"Nothing to geocode"}''\<close>]
      weatherHandler_query [OF s query_example [OF Unmarshal_example_geocode], of L]
    by (simp add: query_example [OF Unmarshal_example_geocode] requestURL_def sentStatus_def)
qed




text \<open>
  C3. The claim is that \<open>query\<close> succeeds for every response whose body is valid JSON.
  It does not: the body \<open>[]\<close> is valid JSON, and \<open>query\<close> returns the decoder's type error.
\<close>

theorem query_valid_json_error:
  \<open>parseJSON ''[]'' = Some (JArray [])
   \<and> fst (query (exampleWorld (Inr ''{"OpenWeatherMapApiKey":"k"}'') 200 ''[]'') ''London'')
     = (weatherData_zero, Some (UnmarshalTypeError ''array''))\<close>
proof -
  have "parseJSON ''[]'' = Some (JArray [])"
    by (simp add: json_eval)
  with query_example [OF Unmarshal_example_array] show ?thesis by simp
qed

text \<open>
  C3, as amended. \<open>query\<close> never looks at the status code of the upstream response: with
  every status code replaced by any other, it returns the same result and makes the same
  calls. For every response whose body is well-formed JSON with a value that fits
  \<open>weatherData\<close> (see C2), \<open>query\<close> returns success; and when the body is an object in
  which no member selects \<open>name\<close> or \<open>main\<close>, as the error bodies of the upstream service
  are, the record it returns is the zero value. A well-formed body that does not fit,
  such as an array, yields an error.
\<close>

theorem query_ignores_status:
  "query (withStatus s w) city = query w city
   \<and> (fst (loadApiConfig w ''.apiConfig'') = (cfg, None)
      \<and> Get w (requestURL city (OpenWeatherMapApiKey cfg)) = Inr resp
      \<and> Body resp = Inr body \<and> parseJSON body = Some j \<and> fitsWeatherData j
      \<longrightarrow> snd (fst (query w city)) = None)
   \<and> (fst (loadApiConfig w ''.apiConfig'') = (cfg, None)
      \<and> Get w (requestURL city (OpenWeatherMapApiKey cfg)) = Inr resp
      \<and> Body resp = Inr body \<and> parseJSON body = Some (JObject ms)
      \<and> membersFor ''name'' ms = [] \<and> membersFor ''main'' ms = []
      \<longrightarrow> fst (query w city) = (weatherData_zero, None))"
proof (intro conjI impI)
  show "query (withStatus s w) city = query w city"
    by (rule query_withStatus)
next
  assume a: "fst (loadApiConfig w ''.apiConfig'') = (cfg, None)
      \<and> Get w (requestURL city (OpenWeatherMapApiKey cfg)) = Inr resp
      \<and> Body resp = Inr body \<and> parseJSON body = Some j \<and> fitsWeatherData j"
  obtain d err where u: "Unmarshal field_weatherData body weatherData_zero = (d, err)"
    by (metis surj_pair)
  from a Unmarshal_weatherData_ok [of body weatherData_zero] u have "err = None"
    by auto
  with a u query_response [of w cfg city resp body]
  show "snd (fst (query w city)) = None" by simp
next
  assume a: "fst (loadApiConfig w ''.apiConfig'') = (cfg, None)
      \<and> Get w (requestURL city (OpenWeatherMapApiKey cfg)) = Inr resp
      \<and> Body resp = Inr body \<and> parseJSON body = Some (JObject ms)
      \<and> membersFor ''name'' ms = [] \<and> membersFor ''main'' ms = []"
  then have "Unmarshal field_weatherData body weatherData_zero = (weatherData_zero, None)"
    by (simp add: Unmarshal_unmatched)
  with a query_response [of w cfg city resp body]
  show "fst (query w city) = (weatherData_zero, None)" by simp
qed

theorem query_ignores_status_witness:
  \<open>query (withStatus 200 (exampleWorld (Inr ''{"OpenWeatherMapApiKey":"k"}'') 404
            ''{"cod":"404","message":"city not found"}'')) ''Atlantis''
     = query (exampleWorld (Inr ''{"OpenWeatherMapApiKey":"k"}'') 404
            ''{"cod":"404","message":"city not found"}'') ''Atlantis''
   \<and> parseJSON ''{"cod":"404","message":"city not found"}''
     = Some (JObject [(''cod'', JString ''404''), (''message'', JString ''city not found'')])
   \<and> membersFor ''name'' [(''cod'', JString ''404''), (''message'', JString ''city not found'')]
     = []
   \<and> membersFor ''main'' [(''cod'', JString ''404''), (''message'', JString ''city not found'')]
     = []
   \<and> fst (query (exampleWorld (Inr ''{"OpenWeatherMapApiKey":"k"}'') 404
            ''{"cod":"404","message":"city not found"}'') ''Atlantis'')
     = (weatherData_zero, None)\<close>
proof -
  let ?ms = "[(''cod'', JString ''404''), (''message'', JString ''city not found'')]"
  have n: "membersFor ''name'' ?ms = []" and m: "membersFor ''main'' ?ms = []"
    by (simp_all add: membersFor_eval fieldMatch_def HasPrefix_def byte_def char_of_bits)
  have b: "Body \<lparr>StatusCode = 404, Body = Inr body\<rparr> = Inr body" for body
    by simp
  note t = query_ignores_status
    [where w = \<open>exampleWorld (Inr ''{"OpenWeatherMapApiKey":"k"}'') 404
                  ''{"cod":"404","message":"city not found"}''\<close>
       and city = "''Atlantis''" and s = 200 and cfg = "\<lparr>OpenWeatherMapApiKey = ''k''\<rparr>"
       and resp = \<open>\<lparr>StatusCode = 404, Body = Inr ''{"cod":"404","message":"city not found"}''\<rparr>\<close>
       and body = \<open>''{"cod":"404","message":"city not found"}''\<close> and ms = ?ms]
  from t n m parse_not_found show ?thesis
    by (simp add: fst_loadApiConfig_example Get_example)
qed

text \<open>
  C4. The claim is that for every valid JSON file holding the key
  \<open>OpenWeatherMapApiKey\<close> the configuration holds that key's string, other fields being
  ignored. Keys are matched without regard to case, and a later member overwrites an
  earlier one: here the file holds the key with the value \<open>a\<close>, and the configuration
  holds \<open>b\<close>, the value of \<open>openweathermapapikey\<close>.
\<close>

theorem loadApiConfig_case_variant_wins:
  \<open>parseJSON ''{"OpenWeatherMapApiKey":"a","openweathermapapikey":"b"}''
     = Some (JObject [(''OpenWeatherMapApiKey'', JString ''a''),
                      (''openweathermapapikey'', JString ''b'')])
   \<and> fst (loadApiConfig
            (exampleWorld (Inr ''{"OpenWeatherMapApiKey":"a","openweathermapapikey":"b"}'')
               200 ''{}'') ''.apiConfig'')
     = (\<lparr>OpenWeatherMapApiKey = ''b''\<rparr>, None)\<close>
proof -
  have p: \<open>parseJSON ''{"OpenWeatherMapApiKey":"a","openweathermapapikey":"b"}''
     = Some (JObject [(''OpenWeatherMapApiKey'', JString ''a''),
                      (''openweathermapapikey'', JString ''b'')])\<close>
    by (simp add: json_eval)
  have \<open>Unmarshal field_apiConfigData
          ''{"OpenWeatherMapApiKey":"a","openweathermapapikey":"b"}'' apiConfigData_zero
        = (\<lparr>OpenWeatherMapApiKey = ''b''\<rparr>, None)\<close>
    by (simp add: Unmarshal_def p store_eval HasPrefix_def byte_def char_of_bits)
  with p show ?thesis
    by (simp add: loadApiConfig_def exampleWorld_def)
qed

text \<open>
  C4, as amended. For every configuration file that is a well-formed JSON object in which
  at least one member selects the field \<open>OpenWeatherMapApiKey\<close> (its key is that name, or
  equals it when case is ignored) and every such member holds a string,
  \<open>loadApiConfig\<close> returns without error the configuration whose key is exactly the
  string of the last such member. Members whose key does not select the field are
  ignored.
\<close>

theorem loadApiConfig_key:
  assumes "ReadFile w filename = Inr bytes"
    and "parseJSON bytes = Some (JObject ms)"
    and "membersFor ''OpenWeatherMapApiKey'' ms \<noteq> []"
    and "list_all isJString (membersFor ''OpenWeatherMapApiKey'' ms)"
  shows "fst (loadApiConfig w filename) =
     (\<lparr>OpenWeatherMapApiKey = stringOf (last (membersFor ''OpenWeatherMapApiKey'' ms))\<rparr>, None)"
proof -
  from foldl_apiKey [OF assms(4), of "(apiConfigData_zero, None)"] assms(2,3)
  have "Unmarshal field_apiConfigData bytes apiConfigData_zero =
     (\<lparr>OpenWeatherMapApiKey = stringOf (last (membersFor ''OpenWeatherMapApiKey'' ms))\<rparr>, None)"
    by (simp add: Unmarshal_def storeStruct_def)
  with assms(1) show ?thesis by (simp add: loadApiConfig_def)
qed

theorem loadApiConfig_key_witness:
  \<open>parseJSON ''{"comment":[1,2],"OpenWeatherMapApiKey":"k 1/x"}''
     = Some (JObject [(''comment'', JArray [JNumber ''1'', JNumber ''2'']),
                      (''OpenWeatherMapApiKey'', JString ''k 1/x'')])
   \<and> membersFor ''OpenWeatherMapApiKey''
        [(''comment'', JArray [JNumber ''1'', JNumber ''2'']),
         (''OpenWeatherMapApiKey'', JString ''k 1/x'')]
     = [JString ''k 1/x'']
   \<and> fst (loadApiConfig
            (exampleWorld (Inr ''{"comment":[1,2],"OpenWeatherMapApiKey":"k 1/x"}'')
               200 ''{}'') ''.apiConfig'')
     = (\<lparr>OpenWeatherMapApiKey = ''k 1/x''\<rparr>, None)\<close>
proof -
  let ?file = \<open>''{"comment":[1,2],"OpenWeatherMapApiKey":"k 1/x"}''\<close>
  let ?ms = "[(''comment'', JArray [JNumber ''1'', JNumber ''2'']),
              (''OpenWeatherMapApiKey'', JString ''k 1/x'')]"
  have p: "parseJSON ?file = Some (JObject ?ms)"
    by (simp add: json_eval)
  have m: "membersFor ''OpenWeatherMapApiKey'' ?ms
             = [JString ''k 1/x'']"
    by (simp add: membersFor_eval fieldMatch_def HasPrefix_def byte_def char_of_bits)
  have r: "ReadFile (exampleWorld (Inr ?file) 200 ''{}'') ''.apiConfig'' = Inr ?file"
    by (simp add: exampleWorld_def)
  from loadApiConfig_key [OF r p] m p show ?thesis by simp
qed

text \<open>
  C5. When the path has a city segment (it splits into three parts), the handler calls
  \<open>query\<close> with the third part. If \<open>query\<close> returns an error, the response has status 500
  and plain-text headers and its body is the message of the error followed by a newline,
  so it is not empty and holds no JSON of a record. If \<open>query\<close> succeeds, the response has
  the header \<open>Content-Type: application/json; charset=utf8\<close>, status 200, and its body is
  the JSON object of the record followed by a newline. The events are those of \<open>query\<close>.
\<close>

theorem weatherHandler_responses:
  assumes "3 \<le> length (SplitN path ''/'' 3)"
    and "query w (SplitN path ''/'' 3 ! 2) = ((d, err), t)"
  shows \<open>weatherHandler L w path =
     (case err of
        Some e \<Rightarrow>
          (\<lparr>Header = [''Content-Type'' \<mapsto> ''text/plain; charset=utf-8'',
                      ''X-Content-Type-Options'' \<mapsto> ''nosniff''],
            Status = Some 500, Written = Error L e @ [CHR 0x0A]\<rparr>, t)
      | None \<Rightarrow>
          (\<lparr>Header = [''Content-Type'' \<mapsto> ''application/json; charset=utf8''],
            Status = Some 200,
            Written = ''{"name":'' @ appendString L (Name d) @ '',"main":{"temp":''
                      @ appendFloat L (Kelvin (Main d)) @ ''}}'' @ [CHR 0x0A]\<rparr>, t))
     \<and> Written (fst (weatherHandler L w path)) \<noteq> []\<close>
proof -
  from SplitN_three [OF assms(1)] obtain a b
    where s: "SplitN path ''/'' 3 = [a, b, SplitN path ''/'' 3 ! 2]" by blast
  from weatherHandler_query [OF s assms(2), of L] show ?thesis
    by (cases err) simp_all
qed

theorem weatherHandler_responses_witness:
  \<open>\<forall>L. 3 \<le> length (SplitN ''/weather/London'' ''/'' 3)
      \<and> weatherHandler L
           (exampleWorld (Inr ''{"OpenWeatherMapApiKey":"k"}'') 200
              ''{"name":"London","main":{"temp":21.5}}'') ''/weather/London''
        = (\<lparr>Header = [''Content-Type'' \<mapsto> ''application/json; charset=utf8''],
            Status = Some 200,
            Written = ''{"name":'' @ appendString L ''London'' @ '',"main":{"temp":''
              @ appendFloat L \<lparr>Sign = False, Exponent = 1027, Mantissa = 0x5800000000000\<rparr>
              @ ''}}'' @ [CHR 0x0A]\<rparr>,
           [FileRead ''.apiConfig'',
            Stdout (''Requesting URL: https://api.openweathermap.org/data/2.5/weather?q=London&appid=k&units=metric'' @ [CHR 0x0A]),
            HttpGet ''https://api.openweathermap.org/data/2.5/weather?q=London&appid=k&units=metric'',
            Stdout (''{"name":"London","main":{"temp":21.5}}'' @ [CHR 0x0A])])
      \<and> fst (weatherHandler L
             (exampleWorld (Inr ''{"OpenWeatherMapApiKey":"k"}'') 200 ''[]'') ''/weather/London'')
        = \<lparr>Header = [''Content-Type'' \<mapsto> ''text/plain; charset=utf-8'',
                     ''X-Content-Type-Options'' \<mapsto> ''nosniff''],
           Status = Some 500,
           Written = Error L (UnmarshalTypeError ''array'') @ [CHR 0x0A]\<rparr>\<close>
proof (intro allI)
  fix L
  have s: "SplitN ''/weather/London'' ''/'' 3 = ['''', ''weather'', ''London'']"
    using SplitN_weather [of "''London''"] by simp
  then have l: "3 \<le> length (SplitN ''/weather/London'' ''/'' 3)" by simp
  have c: "SplitN ''/weather/London'' ''/'' 3 ! 2 = ''London''"
    by (simp add: s)
  note ok = weatherHandler_responses [OF l, of _ _ _ _ L, unfolded c,
      OF query_example [OF Unmarshal_example_London]]
  note bad = weatherHandler_responses [OF l, of _ _ _ _ L, unfolded c,
      OF query_example [OF Unmarshal_example_array]]
  from ok bad l show \<open>3 \<le> length (SplitN ''/weather/London'' ''/'' 3)
      \<and> weatherHandler L
           (exampleWorld (Inr ''{"OpenWeatherMapApiKey":"k"}'') 200
              ''{"name":"London","main":{"temp":21.5}}'') ''/weather/London''
        = (\<lparr>Header = [''Content-Type'' \<mapsto> ''application/json; charset=utf8''],
            Status = Some 200,
            Written = ''{"name":'' @ appendString L ''London'' @ '',"main":{"temp":''
              @ appendFloat L \<lparr>Sign = False, Exponent = 1027, Mantissa = 0x5800000000000\<rparr>
              @ ''}}'' @ [CHR 0x0A]\<rparr>,
           [FileRead ''.apiConfig'',
            Stdout (''Requesting URL: https://api.openweathermap.org/data/2.5/weather?q=London&appid=k&units=metric'' @ [CHR 0x0A]),
            HttpGet ''https://api.openweathermap.org/data/2.5/weather?q=London&appid=k&units=metric'',
            Stdout (''{"name":"London","main":{"temp":21.5}}'' @ [CHR 0x0A])])
      \<and> fst (weatherHandler L
             (exampleWorld (Inr ''{"OpenWeatherMapApiKey":"k"}'') 200 ''[]'') ''/weather/London'')
        = \<lparr>Header = [''Content-Type'' \<mapsto> ''text/plain; charset=utf-8'',
                     ''X-Content-Type-Options'' \<mapsto> ''nosniff''],
           Status = Some 500,
           Written = Error L (UnmarshalTypeError ''array'') @ [CHR 0x0A]\<rparr>\<close>
    by (simp add: requestURL_def)
qed

text \<open>
  C6. Once the configuration is loaded, the one outbound request of \<open>query\<close> goes to the
  fixed endpoint with the parameters \<open>q\<close>, \<open>appid\<close> and \<open>units=metric\<close>; the city and the
  key stand in the URL byte for byte, neither checked nor escaped.
\<close>

theorem query_request_url:
  assumes "fst (loadApiConfig w ''.apiConfig'') = (cfg, None)"
  shows "requests (snd (query w city)) =
     [''https://api.openweathermap.org/data/2.5/weather?q='' @ city
        @ ''&appid='' @ OpenWeatherMapApiKey cfg @ ''&units=metric'']"
  using requests_query_loaded [OF assms, of city] by (simp add: requestURL_def)

theorem query_request_url_witness:
  \<open>fst (loadApiConfig (exampleWorld (Inr ''{"OpenWeatherMapApiKey":"k"}'') 200 ''{}'')
         ''.apiConfig'') = (\<lparr>OpenWeatherMapApiKey = ''k''\<rparr>, None)
   \<and> requests (snd (query (exampleWorld (Inr ''{"OpenWeatherMapApiKey":"k"}'') 200 ''{}'')
         ''New York/&x=%zz''))
     = [''https://api.openweathermap.org/data/2.5/weather?q=New York/&x=%zz&appid=k&units=metric'']\<close>
proof -
  have h: \<open>fst (loadApiConfig (exampleWorld (Inr ''{"OpenWeatherMapApiKey":"k"}'') 200 ''{}'')
         ''.apiConfig'') = (\<lparr>OpenWeatherMapApiKey = ''k''\<rparr>, None)\<close>
    by (simp add: loadApiConfig_example)
  from query_request_url [OF h, of "''New York/&x=%zz''"] h show ?thesis by simp
qed

text \<open>
  C7. When the file cannot be read, or its contents are not well-formed JSON,
  \<open>loadApiConfig\<close> returns the error (that of \<open>os.ReadFile\<close>, or a syntax error) and the
  zero value of \<open>apiConfigData\<close>; and whenever it returns an error, also for a type error
  of the decoder, the configuration it returns is the zero value.
\<close>

theorem loadApiConfig_errors:
  "(ReadFile w filename = Inl err
      \<longrightarrow> fst (loadApiConfig w filename) = (apiConfigData_zero, Some err))
   \<and> (ReadFile w filename = Inr bytes \<and> parseJSON bytes = None
      \<longrightarrow> fst (loadApiConfig w filename) = (apiConfigData_zero, Some SyntaxError))
   \<and> (snd (fst (loadApiConfig w filename)) \<noteq> None
      \<longrightarrow> fst (fst (loadApiConfig w filename)) = apiConfigData_zero)"
proof (intro conjI impI)
  assume "ReadFile w filename = Inl err"
  then show "fst (loadApiConfig w filename) = (apiConfigData_zero, Some err)"
    by (simp add: loadApiConfig_ReadFile_error)
next
  assume "ReadFile w filename = Inr bytes \<and> parseJSON bytes = None"
  then show "fst (loadApiConfig w filename) = (apiConfigData_zero, Some SyntaxError)"
    by (simp add: loadApiConfig_syntax_error)
next
  assume "snd (fst (loadApiConfig w filename)) \<noteq> None"
  then show "fst (fst (loadApiConfig w filename)) = apiConfigData_zero"
    by (auto simp: loadApiConfig_def split: sum.splits prod.splits option.splits)
qed

theorem loadApiConfig_errors_witness:
  \<open>ReadFile (exampleWorld (Inl (IOError ''open .apiConfig: no such file or directory''))
       200 ''{}'') ''.apiConfig''
     = Inl (IOError ''open .apiConfig: no such file or directory'')
   \<and> fst (loadApiConfig (exampleWorld (Inl (IOError ''open .apiConfig: no such file or directory''))
       200 ''{}'') ''.apiConfig'')
     = (apiConfigData_zero, Some (IOError ''open .apiConfig: no such file or directory''))
   \<and> parseJSON ''{"OpenWeatherMapApiKey":'' = None
   \<and> fst (loadApiConfig (exampleWorld (Inr ''{"OpenWeatherMapApiKey":'') 200 ''{}'')
       ''.apiConfig'')
     = (apiConfigData_zero, Some SyntaxError)\<close>
proof -
  let ?w1 = "exampleWorld (Inl (IOError ''open .apiConfig: no such file or directory'')) 200 ''{}''"
  let ?w2 = \<open>exampleWorld (Inr ''{"OpenWeatherMapApiKey":'') 200 ''{}''\<close>
  have r1: "ReadFile ?w1 ''.apiConfig'' = Inl (IOError ''open .apiConfig: no such file or directory'')"
    by (simp add: exampleWorld_def)
  have r2: \<open>ReadFile ?w2 ''.apiConfig'' = Inr ''{"OpenWeatherMapApiKey":''\<close>
    by (simp add: exampleWorld_def)
  have p: \<open>parseJSON ''{"OpenWeatherMapApiKey":'' = None\<close>
    by (simp add: json_eval)
  from loadApiConfig_errors [of ?w1 "''.apiConfig''"
      "IOError ''open .apiConfig: no such file or directory''"]
    loadApiConfig_errors [of ?w2 "''.apiConfig''" _ \<open>''{"OpenWeatherMapApiKey":''\<close>]
    r1 r2 p
  show ?thesis by simp
qed

text \<open>
  C8. The claim is that for every \<open>weatherData\<close> record, encoding it and decoding the
  result gives an equal record. A record whose temperature is a NaN has no encoding at
  all, whatever the library's texts are; and a name that is not valid UTF-8, here the
  single byte \<open>0xFF\<close>, is written as the escape of U+FFFD and read back as the three
  bytes of that code point.
\<close>

theorem encode_decode_differs:
  "(\<forall>L. Encode L \<lparr>Name = [], Main = \<lparr>Kelvin = \<lparr>Sign = False, Exponent = 2047,
                                                 Mantissa = 1\<rparr>\<rparr>\<rparr> = None)
   \<and> (\<forall>msg. map_option (\<lambda>b. Unmarshal field_weatherData b weatherData_zero)
               (Encode (jsonLibrary msg) \<lparr>Name = [CHR 0xFF], Main = \<lparr>Kelvin = float64_zero\<rparr>\<rparr>)
             = Some (\<lparr>Name = [CHR 0xEF, CHR 0xBF, CHR 0xBD],
                      Main = \<lparr>Kelvin = float64_zero\<rparr>\<rparr>, None))"
proof -
  have e: \<open>Encode (jsonLibrary msg) \<lparr>Name = [CHR 0xFF], Main = \<lparr>Kelvin = float64_zero\<rparr>\<rparr>
           = Some (''{"name":"'' @ [CHR 0x5C] @ ''ufffd","main":{"temp":0}}'' @ [CHR 0x0A])\<close>
    for msg
    by (simp add: Encode_def jsonLibrary_def encodeString_def encodeFloat_def float64_zero_def
                  DecodeRune_def DecodeRune1_def byte_def RuneError_def)
  have p: \<open>parseJSON (''{"name":"'' @ [CHR 0x5C] @ ''ufffd","main":{"temp":0}}'' @ [CHR 0x0A])
           = Some (JObject [(''name'', JString [CHR 0xEF, CHR 0xBF, CHR 0xBD]),
                            (''main'', JObject [(''temp'', JNumber ''0'')])])\<close>
    by (simp add: json_eval)
  have f: "ParseFloat ''0'' = Some float64_zero"
    by (simp add: json_eval float_eval float64_zero_def)
  have u: \<open>Unmarshal field_weatherData
             (''{"name":"'' @ [CHR 0x5C] @ ''ufffd","main":{"temp":0}}'' @ [CHR 0x0A])
             weatherData_zero
           = (\<lparr>Name = [CHR 0xEF, CHR 0xBF, CHR 0xBD], Main = \<lparr>Kelvin = float64_zero\<rparr>\<rparr>,
              None)\<close>
    unfolding Unmarshal_def p using store_encoded [OF f] by simp
  show ?thesis using e u by (simp add: Encode_def)
qed

text \<open>
  C8, as amended. For every \<open>weatherData\<close> record whose name is valid UTF-8 and whose
  temperature is a finite \<open>float64\<close>, the encoder writes a text, and decoding that text
  into a zero-valued record gives the record that was encoded, without error: the bytes
  of the name and the three fields of the temperature are the same. The texts of the
  name and of the temperature are those that \<open>encoding/json\<close> documents (\<open>jsonLibrary\<close>).
\<close>

theorem encode_decode_round_trip:
  assumes "ValidString (Name d)" and "isFinite (Kelvin (Main d))"
  shows "map_option (\<lambda>b. Unmarshal field_weatherData b weatherData_zero)
           (Encode (jsonLibrary msg) d) = Some (d, None)"
  using Unmarshal_Encode [OF assms, of msg] by auto

theorem encode_decode_round_trip_witness:
  "\<forall>msg. ValidString [CHR ''Z'', CHR 0xC3, CHR 0xBC, CHR ''r'', CHR ''i'', CHR ''c'', CHR ''h'']
     \<and> isFinite \<lparr>Sign = True, Exponent = 1024, Mantissa = 0xA000000000000\<rparr>
     \<and> map_option (\<lambda>b. Unmarshal field_weatherData b weatherData_zero)
          (Encode (jsonLibrary msg)
             \<lparr>Name = [CHR ''Z'', CHR 0xC3, CHR 0xBC, CHR ''r'', CHR ''i'', CHR ''c'', CHR ''h''],
              Main = \<lparr>Kelvin = \<lparr>Sign = True, Exponent = 1024,
                                  Mantissa = 0xA000000000000\<rparr>\<rparr>\<rparr>)
        = Some (\<lparr>Name = [CHR ''Z'', CHR 0xC3, CHR 0xBC, CHR ''r'', CHR ''i'', CHR ''c'',
                           CHR ''h''],
                 Main = \<lparr>Kelvin = \<lparr>Sign = True, Exponent = 1024,
                                     Mantissa = 0xA000000000000\<rparr>\<rparr>\<rparr>, None)"
proof
  fix msg
  have v: "ValidString [CHR ''Z'', CHR 0xC3, CHR 0xBC, CHR ''r'', CHR ''i'', CHR ''c'', CHR ''h'']"
    by (simp add: DecodeRune_def DecodeRune1_def byte_def isCont_def RuneError_def)
  have f: "isFinite \<lparr>Sign = True, Exponent = 1024, Mantissa = 0xA000000000000\<rparr>"
    by (simp add: isFinite_def)
  show "ValidString [CHR ''Z'', CHR 0xC3, CHR 0xBC, CHR ''r'', CHR ''i'', CHR ''c'', CHR ''h'']
     \<and> isFinite \<lparr>Sign = True, Exponent = 1024, Mantissa = 0xA000000000000\<rparr>
     \<and> map_option (\<lambda>b. Unmarshal field_weatherData b weatherData_zero)
          (Encode (jsonLibrary msg)
             \<lparr>Name = [CHR ''Z'', CHR 0xC3, CHR 0xBC, CHR ''r'', CHR ''i'', CHR ''c'', CHR ''h''],
              Main = \<lparr>Kelvin = \<lparr>Sign = True, Exponent = 1024,
                                  Mantissa = 0xA000000000000\<rparr>\<rparr>\<rparr>)
        = Some (\<lparr>Name = [CHR ''Z'', CHR 0xC3, CHR 0xBC, CHR ''r'', CHR ''i'', CHR ''c'',
                           CHR ''h''],
                 Main = \<lparr>Kelvin = \<lparr>Sign = True, Exponent = 1024,
                                     Mantissa = 0xA000000000000\<rparr>\<rparr>\<rparr>, None)"
    using encode_decode_round_trip
      [of "\<lparr>Name = [CHR ''Z'', CHR 0xC3, CHR 0xBC, CHR ''r'', CHR ''i'', CHR ''c'', CHR ''h''],
            Main = \<lparr>Kelvin = \<lparr>Sign = True, Exponent = 1024,
                                Mantissa = 0xA000000000000\<rparr>\<rparr>\<rparr>" msg]
      v f
    by simp
qed

text \<open>
  C9. If loading the configuration fails, \<open>query\<close> returns that error with the zero-valued
  \<open>weatherData\<close> and makes no outbound request.
\<close>

theorem query_config_error:
  assumes "fst (loadApiConfig w ''.apiConfig'') = (cfg, Some err)"
  shows "fst (query w city) = (weatherData_zero, Some err)
         \<and> requests (snd (query w city)) = []"
proof -
  from assms trace_loadApiConfig [of w "''.apiConfig''"]
  have "loadApiConfig w ''.apiConfig'' = ((cfg, Some err), [FileRead ''.apiConfig''])"
    by (simp add: prod_eq_iff)
  then show ?thesis by (simp add: query_def)
qed

theorem query_config_error_witness:
  "fst (loadApiConfig (exampleWorld (Inl (IOError ''open .apiConfig: no such file or directory''))
          200 ''{}'') ''.apiConfig'')
     = (apiConfigData_zero, Some (IOError ''open .apiConfig: no such file or directory''))
   \<and> query (exampleWorld (Inl (IOError ''open .apiConfig: no such file or directory''))
          200 ''{}'') ''London''
     = ((weatherData_zero, Some (IOError ''open .apiConfig: no such file or directory'')),
        [FileRead ''.apiConfig''])"
proof -
  let ?w = "exampleWorld (Inl (IOError ''open .apiConfig: no such file or directory'')) 200 ''{}''"
  have r: "ReadFile ?w ''.apiConfig'' = Inl (IOError ''open .apiConfig: no such file or directory'')"
    by (simp add: exampleWorld_def)
  have h: "fst (loadApiConfig ?w ''.apiConfig'')
     = (apiConfigData_zero, Some (IOError ''open .apiConfig: no such file or directory''))"
    by (simp add: loadApiConfig_ReadFile_error [OF r])
  have t: "snd (query ?w ''London'') = [FileRead ''.apiConfig'']"
    by (simp add: query_def loadApiConfig_ReadFile_error [OF r])
  from query_config_error [OF h, of "''London''"] h t show ?thesis
    by (simp add: prod_eq_iff)
qed

text \<open>
  C10. For a request path \<open>/weather/<rest>\<close>, whatever \<open><rest>\<close> holds (slashes included),
  the path is split into the three parts \<open>""\<close>, \<open>"weather"\<close> and \<open><rest>\<close>, and the
  handler calls \<open>query\<close> with the whole of \<open><rest>\<close>: its events are those of that call.
\<close>

theorem weatherHandler_city_is_remainder:
  "SplitN (''/weather/'' @ rest) ''/'' 3 = ['''', ''weather'', rest]
   \<and> snd (weatherHandler L w (''/weather/'' @ rest)) = snd (query w rest)"
proof -
  obtain d err t where q: "query w rest = ((d, err), t)"
    by (metis surj_pair)
  from weatherHandler_query [OF SplitN_weather q, of L]
  have "snd (weatherHandler L w (''/weather/'' @ rest)) = t"
    by (cases err) simp_all
  with q SplitN_weather [of rest] show ?thesis by simp
qed

theorem weatherHandler_city_is_remainder_witness:
  \<open>\<forall>L. SplitN ''/weather/a/b/c'' ''/'' 3 = ['''', ''weather'', ''a/b/c'']
      \<and> requests (snd (weatherHandler L
            (exampleWorld (Inr ''{"OpenWeatherMapApiKey":"k"}'') 200
               ''{"name":"London","main":{"temp":21.5}}'') ''/weather/a/b/c''))
        = [''https://api.openweathermap.org/data/2.5/weather?q=a/b/c&appid=k&units=metric'']\<close>
proof (intro allI)
  fix L
  show \<open>SplitN ''/weather/a/b/c'' ''/'' 3 = ['''', ''weather'', ''a/b/c'']
      \<and> requests (snd (weatherHandler L
            (exampleWorld (Inr ''{"OpenWeatherMapApiKey":"k"}'') 200
               ''{"name":"London","main":{"temp":21.5}}'') ''/weather/a/b/c''))
        = [''https://api.openweathermap.org/data/2.5/weather?q=a/b/c&appid=k&units=metric'']\<close>
    using weatherHandler_city_is_remainder [of "''a/b/c''" L
        \<open>exampleWorld (Inr ''{"OpenWeatherMapApiKey":"k"}'') 200
           ''{"name":"London","main":{"temp":21.5}}''\<close>]
    by (simp add: query_example [OF Unmarshal_example_London] requestURL_def)
qed

end
